theory Spec2Isabelle
  imports Complex_Main "HOL-Library.Multiset"
begin

unbundle bit_operations_syntax

section \<open>Python string primitives\<close>

text \<open>
  Donor names, addresses and ZIP codes are Python \<open>str\<close> values.  They are modelled as
  HOL strings over the ASCII alphabet, one \<open>char\<close> per code point: \<open>upper\<close> and
  \<open>lower\<close> map the 26 letters, whitespace is what \<open>str.strip\<close>, \<open>str.split\<close> and the
  regular expression class \<open>\s\<close> accept below code point 128 (tab, line feed, vertical
  tab, form feed, carriage return, the separators 28 to 31, and space), a digit is one of
  \<open>0\<close> to \<open>9\<close>, and a word character (\<open>\w\<close>) is a letter, a digit or the underscore.
  Python floats are modelled by exact rational numbers.
\<close>

definition is_space :: "char \<Rightarrow> bool" where
  "is_space c = (let n = (of_char c :: nat) in (9 \<le> n \<and> n \<le> 13) \<or> (28 \<le> n \<and> n \<le> 32))"

definition is_digit :: "char \<Rightarrow> bool" where
  "is_digit c = (let n = (of_char c :: nat) in 48 \<le> n \<and> n \<le> 57)"

definition is_lower :: "char \<Rightarrow> bool" where
  "is_lower c = (let n = (of_char c :: nat) in 97 \<le> n \<and> n \<le> 122)"

definition is_upper :: "char \<Rightarrow> bool" where
  "is_upper c = (let n = (of_char c :: nat) in 65 \<le> n \<and> n \<le> 90)"

definition is_word :: "char \<Rightarrow> bool" where
  "is_word c = (is_lower c \<or> is_upper c \<or> is_digit c \<or> c = CHR ''_'')"

definition upper_char :: "char \<Rightarrow> char" where
  "upper_char c =
     (case map_of (zip ''abcdefghijklmnopqrstuvwxyz'' ''ABCDEFGHIJKLMNOPQRSTUVWXYZ'') c of
        None \<Rightarrow> c | Some u \<Rightarrow> u)"

definition lower_char :: "char \<Rightarrow> char" where
  "lower_char c =
     (case map_of (zip ''ABCDEFGHIJKLMNOPQRSTUVWXYZ'' ''abcdefghijklmnopqrstuvwxyz'') c of
        None \<Rightarrow> c | Some l \<Rightarrow> l)"

definition upper :: "string \<Rightarrow> string" where
  "upper s = map upper_char s"

definition lower :: "string \<Rightarrow> string" where
  "lower s = map lower_char s"

definition lstrip :: "string \<Rightarrow> string" where
  "lstrip s = dropWhile is_space s"

definition rstrip :: "string \<Rightarrow> string" where
  "rstrip s = rev (dropWhile is_space (rev s))"

definition strip :: "string \<Rightarrow> string" where
  "strip s = rstrip (lstrip s)"

section \<open>normalize\_addresses.py: ZIP codes\<close>

text \<open>
  \<open>normalize_zip\<close>: keep the digits; five or more give the first five, one to four are
  left-padded with zeros (\<open>zfill\<close>), none gives the empty string.
\<close>

definition zfill :: "nat \<Rightarrow> string \<Rightarrow> string" where
  "zfill n s = replicate (n - length s) (CHR ''0'') @ s"

definition normalize_zip :: "string \<Rightarrow> string" where
  "normalize_zip zipcode =
     (if zipcode = [] then []
      else let digits = filter is_digit zipcode in
        if length digits \<ge> 5 then take 5 digits
        else if length digits > 0 then zfill 5 digits
        else [])"

section \<open>assign\_master\_ids.py: records, similarity and match decision\<close>

record DonorRecord =
  id' :: int
  prefix :: string
  first_name :: string
  middle_name :: string
  last_name :: string
  suffix :: string
  street_address :: string
  city :: string
  state :: string
  zipcode :: string
  master_person_id :: "string option"

text \<open>\<open>extract_street_number\<close>: the leading digit run of the stripped address.\<close>

definition extract_street_number :: "string \<Rightarrow> string" where
  "extract_street_number address =
     (if address = [] then [] else takeWhile is_digit (strip address))"

text \<open>
  The matching loop of \<open>calculate_name_similarity\<close>.  For position \<open>i\<close> of \<open>s1\<close> the
  inner \<open>for\<close> scans \<open>range(max(0, i - match_distance), min(i + match_distance + 1, len2))\<close>
  and stops at the first \<open>j\<close> that is still free and carries the same character;
  subtraction on \<open>nat\<close> stops at 0, which is the \<open>max(0, _)\<close> of the source.
\<close>

definition find_match :: "string \<Rightarrow> string \<Rightarrow> nat \<Rightarrow> bool list \<Rightarrow> nat \<Rightarrow> nat option" where
  "find_match s1 s2 match_distance s2_matches i =
     List.find (\<lambda>j. \<not> (s2_matches ! j \<or> s1 ! i \<noteq> s2 ! j))
       [i - match_distance ..< min (i + match_distance + 1) (length s2)]"

fun match_step ::
  "string \<Rightarrow> string \<Rightarrow> nat \<Rightarrow> bool list \<times> bool list \<times> nat \<Rightarrow> nat \<Rightarrow> bool list \<times> bool list \<times> nat"
where
  "match_step s1 s2 match_distance (s1_matches, s2_matches, matches) i =
     (case find_match s1 s2 match_distance s2_matches i of
        None \<Rightarrow> (s1_matches, s2_matches, matches)
      | Some j \<Rightarrow> (s1_matches[i := True], s2_matches[j := True], matches + 1))"

definition match_loop :: "string \<Rightarrow> string \<Rightarrow> nat \<Rightarrow> bool list \<times> bool list \<times> nat" where
  "match_loop s1 s2 match_distance =
     foldl (match_step s1 s2 match_distance)
       (replicate (length s1) False, replicate (length s2) False, 0) [0..<length s1]"

text \<open>
  The transposition loop.  \<open>while not s2_matches[k]: k += 1\<close> reads the flag list at
  growing indices; reading past its end is Python's IndexError, the value \<open>None\<close> here.
  The state is the pair \<open>(k, transpositions)\<close>.
\<close>

fun transp_step ::
  "string \<Rightarrow> string \<Rightarrow> bool list \<Rightarrow> bool list \<Rightarrow> (nat \<times> nat) option \<Rightarrow> nat \<Rightarrow> (nat \<times> nat) option"
where
  "transp_step s1 s2 s1_matches s2_matches None i = None"
| "transp_step s1 s2 s1_matches s2_matches (Some (k, t)) i =
     (if \<not> s1_matches ! i then Some (k, t)
      else case List.find (\<lambda>j. s2_matches ! j) [k..<length s2_matches] of
             None \<Rightarrow> None
           | Some k' \<Rightarrow> Some (k' + 1, if s1 ! i \<noteq> s2 ! k' then t + 1 else t))"

definition transp_loop :: "string \<Rightarrow> string \<Rightarrow> bool list \<Rightarrow> bool list \<Rightarrow> nat option" where
  "transp_loop s1 s2 s1_matches s2_matches =
     map_option snd
       (foldl (transp_step s1 s2 s1_matches s2_matches) (Some (0, 0)) [0..<length s1])"

text \<open>
  The Jaro value and the prefix count as the source computes them from the two
  normalised, non-empty, different strings.  \<open>jaro\<close> is the Jaro similarity alone
  (0 when nothing matches), \<open>jaro_winkler\<close> the rest of the source function after its
  early returns; \<open>None\<close> is the IndexError of the transposition loop.
\<close>

definition jaro_value :: "nat \<Rightarrow> nat \<Rightarrow> nat \<Rightarrow> nat \<Rightarrow> rat" where
  "jaro_value len1 len2 matches transpositions =
     (of_nat matches / of_nat len1 + of_nat matches / of_nat len2
        + (of_nat matches - of_nat transpositions / 2) / of_nat matches) / 3"

definition jaro :: "string \<Rightarrow> string \<Rightarrow> rat option" where
  "jaro s1 s2 =
     (let len1 = length s1; len2 = length s2;
          match_distance = max len1 len2 div 2 - 1;
          (s1_matches, s2_matches, matches) = match_loop s1 s2 match_distance
      in if matches = 0 then Some 0
         else case transp_loop s1 s2 s1_matches s2_matches of
                None \<Rightarrow> None
              | Some transpositions \<Rightarrow> Some (jaro_value len1 len2 matches transpositions))"

definition prefix_len :: "string \<Rightarrow> string \<Rightarrow> nat" where
  "prefix_len s1 s2 =
     length (filter (\<lambda>i. s1 ! i = s2 ! i) [0..<min 4 (min (length s1) (length s2))])"

definition jaro_winkler :: "string \<Rightarrow> string \<Rightarrow> rat option" where
  "jaro_winkler s1 s2 =
     (let len1 = length s1; len2 = length s2;
          match_distance = max len1 len2 div 2 - 1;
          (s1_matches, s2_matches, matches) = match_loop s1 s2 match_distance
      in if matches = 0 then Some 0
         else case transp_loop s1 s2 s1_matches s2_matches of
                None \<Rightarrow> None
              | Some transpositions \<Rightarrow>
                  let jaro = jaro_value len1 len2 matches transpositions
                  in Some (jaro + of_nat (prefix_len s1 s2) * (1 / 10) * (1 - jaro)))"

definition calculate_name_similarity :: "string \<Rightarrow> string \<Rightarrow> rat option" where
  "calculate_name_similarity name1 name2 =
     (if name1 = [] \<or> name2 = [] then Some 0
      else let s1 = strip (upper name1); s2 = strip (upper name2) in
        if s1 = s2 then Some 1
        else if length s1 = 0 \<or> length s2 = 0 then Some 0
        else jaro_winkler s1 s2)"

text \<open>
  The prefix length of Winkler's formula in the words of the specification: the length of
  the common prefix of the two strings, capped at 4.
\<close>

definition common_prefix_len :: "string \<Rightarrow> string \<Rightarrow> nat" where
  "common_prefix_len s1 s2 = min 4 (length (takeWhile (\<lambda>(x, y). x = y) (zip s1 s2)))"

section \<open>assign\_master\_ids.py: match decision and blocking\<close>

text \<open>
  \<open>match_records\<close> returns the pair \<open>(decision, score)\<close>; \<open>None\<close> stands for an exception
  raised by \<open>calculate_name_similarity\<close>.
\<close>

definition match_records :: "DonorRecord \<Rightarrow> DonorRecord \<Rightarrow> (bool \<times> rat) option" where
  "match_records r1 r2 =
     (if upper (last_name r1) \<noteq> upper (last_name r2) then Some (False, 0)
      else case calculate_name_similarity (first_name r1) (first_name r2) of
        None \<Rightarrow> None
      | Some fn_sim \<Rightarrow>
          let zip_match = (normalize_zip (zipcode r1) = normalize_zip (zipcode r2));
              sn1 = extract_street_number (street_address r1);
              sn2 = extract_street_number (street_address r2);
              street_match = (sn1 = sn2 \<and> sn1 \<noteq> []);
              score = (if fn_sim \<ge> 9 / 10 then 4 / 10 else if fn_sim \<ge> 8 / 10 then 3 / 10 else 0);
              score = score + (if zip_match then 3 / 10 else 0);
              score = score + (if street_match then 3 / 10 else 0)
          in Some (score \<ge> 6 / 10, score))"

definition create_blocking_key :: "string \<Rightarrow> string \<Rightarrow> string \<Rightarrow> string" where
  "create_blocking_key lname zcode first_initial =
     (let l = take 5 (strip (upper lname));
          z = (if zcode = [] then [] else take 3 (normalize_zip zcode));
          fi = take 1 (upper first_initial)
      in l @ ''|'' @ z @ ''|'' @ fi)"

definition blocking_key :: "DonorRecord \<Rightarrow> string" where
  "blocking_key r =
     create_blocking_key (last_name r) (zipcode r)
       (if first_name r = [] then [] else take 1 (first_name r))"

text \<open>
  The list of records is the store of the record objects: a position of the list is an
  object, a block is the list of the positions that share a blocking key, and the blocks
  are kept in the order in which their keys first occur (the dictionary's order).
\<close>

fun add_to_block :: "(string \<times> nat list) list \<Rightarrow> string \<Rightarrow> nat \<Rightarrow> (string \<times> nat list) list" where
  "add_to_block [] key i = [(key, [i])]"
| "add_to_block ((k, block) # rest) key i =
     (if k = key then (k, block @ [i]) # rest else (k, block) # add_to_block rest key i)"

definition build_blocks :: "DonorRecord list \<Rightarrow> (string \<times> nat list) list" where
  "build_blocks records =
     foldl (\<lambda>blocks i. add_to_block blocks (blocking_key (records ! i)) i) [] [0..<length records]"

section \<open>link\_committees\_to\_candidates.py\<close>













section \<open>apply\_alias\_overrides.py\<close>

text \<open>
  The function runs one SQL statement,
  \<^verbatim>\<open>UPDATE nc_boe_donations_raw d SET master_person_id = a.master_person_id
  FROM person_aliases a
  WHERE UPPER(TRIM(d.donor_name)) = UPPER(TRIM(a.alias_name))
    AND d.master_person_id IS DISTINCT FROM a.master_person_id\<close>
  and returns the number of rows it updated.  The two tables are lists of rows, a column
  that may be NULL is an option, and \<open>TRIM\<close> removes blanks (code point 32) at both ends.
  A comparison with NULL does not select a row; \<open>IS DISTINCT FROM\<close> compares NULL like a
  value.  A target row is updated at most once.  When several alias rows qualify for one
  target row, the database uses one of them without saying which: the model takes the
  choice among the qualifying rows, listed in table order, as the parameter \<open>pick\<close>.
\<close>

record Donation =
  donation_id :: int
  donor_name :: "string option"
  donation_master_person_id :: "string option"

record Alias =
  alias_name :: "string option"
  alias_master_person_id :: "string option"

definition sql_trim :: "string \<Rightarrow> string" where
  "sql_trim s = rev (dropWhile (\<lambda>c. c = CHR '' '') (rev (dropWhile (\<lambda>c. c = CHR '' '') s)))"

definition name_matches :: "Donation \<Rightarrow> Alias \<Rightarrow> bool" where
  "name_matches d a =
     (case (donor_name d, alias_name a) of
        (Some n, Some m) \<Rightarrow> upper (sql_trim n) = upper (sql_trim m)
      | _ \<Rightarrow> False)"

definition where_clause :: "Donation \<Rightarrow> Alias \<Rightarrow> bool" where
  "where_clause d a =
     (name_matches d a \<and> donation_master_person_id d \<noteq> alias_master_person_id a)"

definition update_row :: "(Alias list \<Rightarrow> Alias) \<Rightarrow> Alias list \<Rightarrow> Donation \<Rightarrow> Donation \<times> nat" where
  "update_row pick aliases d =
     (case filter (where_clause d) aliases of
        [] \<Rightarrow> (d, 0)
      | q # qs \<Rightarrow> (d\<lparr>donation_master_person_id := alias_master_person_id (pick (q # qs))\<rparr>, 1))"

text \<open>The new table and \<open>rows_updated\<close>, the value the function returns.\<close>

definition apply_alias_overrides ::
  "(Alias list \<Rightarrow> Alias) \<Rightarrow> Alias list \<Rightarrow> Donation list \<Rightarrow> Donation list \<times> nat" where
  "apply_alias_overrides pick aliases donations =
     (map (\<lambda>d. fst (update_row pick aliases d)) donations,
      sum_list (map (\<lambda>d. snd (update_row pick aliases d)) donations))"

text \<open>
  An alias table is consistent when alias rows with the same case-normalised alias name
  carry the same target id.
\<close>

definition consistent_aliases :: "Alias list \<Rightarrow> bool" where
  "consistent_aliases aliases =
     (\<forall>a \<in> set aliases. \<forall>b \<in> set aliases.
        (case (alias_name a, alias_name b) of
           (Some n, Some m) \<Rightarrow> upper (sql_trim n) = upper (sql_trim m)
         | _ \<Rightarrow> False)
        \<longrightarrow> alias_master_person_id a = alias_master_person_id b)"

text \<open>Example tables: two alias rows for one name with different target ids.\<close>

definition conflicting_aliases :: "Alias list" where
  "conflicting_aliases =
     [\<lparr> alias_name = Some ''JOHN SMITH'', alias_master_person_id = Some ''MP_AAAAAAAAAAAA'' \<rparr>,
      \<lparr> alias_name = Some ''John Smith '', alias_master_person_id = Some ''MP_BBBBBBBBBBBB'' \<rparr>]"

definition example_aliases :: "Alias list" where
  "example_aliases =
     [\<lparr> alias_name = Some ''JOHN SMITH'', alias_master_person_id = Some ''MP_AAAAAAAAAAAA'' \<rparr>,
      \<lparr> alias_name = Some ''Jane Doe'', alias_master_person_id = Some ''MP_BBBBBBBBBBBB'' \<rparr>]"

definition example_donations :: "Donation list" where
  "example_donations =
     [\<lparr> donation_id = 1, donor_name = Some '' john smith'', donation_master_person_id = None \<rparr>,
      \<lparr> donation_id = 2, donor_name = Some ''JANE DOE'',
        donation_master_person_id = Some ''MP_BBBBBBBBBBBB'' \<rparr>,
      \<lparr> donation_id = 3, donor_name = None, donation_master_person_id = Some ''MP_CCCCCCCCCCCC'' \<rparr>]"

section \<open>SHA-256 (hashlib.sha256)\<close>

text \<open>
  The digest function of the Python standard library, after FIPS 180-4.  A 32-bit word is
  a natural number below \<open>2 ^ 32\<close> with the wrap-around of the addition written out;
  a message is its list of bytes, and for the ASCII strings of the model the UTF-8
  encoding of a string is the list of its code points.
\<close>

definition add32 :: "nat \<Rightarrow> nat \<Rightarrow> nat" where
  "add32 x y = (x + y) mod 4294967296"

definition rotr :: "nat \<Rightarrow> nat \<Rightarrow> nat" where
  "rotr n x = x div 2 ^ n + (x mod 2 ^ n) * 2 ^ (32 - n)"

definition not32 :: "nat \<Rightarrow> nat" where
  "not32 x = 4294967295 - x"

definition Ch :: "nat \<Rightarrow> nat \<Rightarrow> nat \<Rightarrow> nat" where
  "Ch x y z = (x AND y) XOR (not32 x AND z)"

definition Maj :: "nat \<Rightarrow> nat \<Rightarrow> nat \<Rightarrow> nat" where
  "Maj x y z = (x AND y) XOR (x AND z) XOR (y AND z)"

definition Sigma0 :: "nat \<Rightarrow> nat" where
  "Sigma0 x = rotr 2 x XOR rotr 13 x XOR rotr 22 x"

definition Sigma1 :: "nat \<Rightarrow> nat" where
  "Sigma1 x = rotr 6 x XOR rotr 11 x XOR rotr 25 x"

definition sigma0 :: "nat \<Rightarrow> nat" where
  "sigma0 x = rotr 7 x XOR rotr 18 x XOR x div 2 ^ 3"

definition sigma1 :: "nat \<Rightarrow> nat" where
  "sigma1 x = rotr 17 x XOR rotr 19 x XOR x div 2 ^ 10"

text \<open>The round constants and the initial hash value of the standard, in decimal.\<close>

definition K256 :: "nat list" where
  "K256 =
     [1116352408, 1899447441, 3049323471, 3921009573, 961987163, 1508970993, 2453635748,
      2870763221, 3624381080, 310598401, 607225278, 1426881987, 1925078388, 2162078206,
      2614888103, 3248222580, 3835390401, 4022224774, 264347078, 604807628, 770255983,
      1249150122, 1555081692, 1996064986, 2554220882, 2821834349, 2952996808, 3210313671,
      3336571891, 3584528711, 113926993, 338241895, 666307205, 773529912, 1294757372,
      1396182291, 1695183700, 1986661051, 2177026350, 2456956037, 2730485921, 2820302411,
      3259730800, 3345764771, 3516065817, 3600352804, 4094571909, 275423344, 430227734,
      506948616, 659060556, 883997877, 958139571, 1322822218, 1537002063, 1747873779,
      1955562222, 2024104815, 2227730452, 2361852424, 2428436474, 2756734187, 3204031479,
      3329325298]"

definition H256 :: "nat list" where
  "H256 =
     [1779033703, 3144134277, 1013904242, 2773480762, 1359893119, 2600822924, 528734635,
      1541459225]"

text \<open>One round on the working variables \<open>a\<close> to \<open>h\<close>, with round constant and schedule word.\<close>

fun round256 :: "nat list \<Rightarrow> nat \<Rightarrow> nat \<Rightarrow> nat list" where
  "round256 [a, b, c, d, e, f, g, h] k w =
     (let t1 = add32 (add32 (add32 (add32 h (Sigma1 e)) (Ch e f g)) k) w;
          t2 = add32 (Sigma0 a) (Maj a b c)
      in [add32 t1 t2, a, b, c, add32 d t1, e, f, g])"
| "round256 s _ _ = s"

text \<open>
  The 64 rounds.  The message schedule is kept as a window of sixteen words: its head is
  the word of the current round, and the word sixteen rounds ahead is appended.
\<close>

fun rounds :: "nat list \<Rightarrow> nat list \<Rightarrow> nat list \<Rightarrow> nat list" where
  "rounds [] w s = s"
| "rounds (k # ks) w s =
     rounds ks
       (tl w @ [add32 (add32 (add32 (sigma1 (w ! 14)) (w ! 9)) (sigma0 (w ! 1))) (w ! 0)])
       (round256 s k (hd w))"

definition compress :: "nat list \<Rightarrow> nat list \<Rightarrow> nat list" where
  "compress h blk = map2 add32 h (rounds K256 blk h)"

definition be64 :: "nat \<Rightarrow> nat list" where
  "be64 n = map (\<lambda>i. n div 256 ^ i mod 256) [7, 6, 5, 4, 3, 2, 1, 0]"

definition sha_pad :: "nat list \<Rightarrow> nat list" where
  "sha_pad bs =
     (let l = length bs
      in bs @ [128] @ replicate ((119 - l mod 64) mod 64) 0 @ be64 (8 * l))"

fun be32 :: "nat list \<Rightarrow> nat list" where
  "be32 (a # b # c # d # r) = (((a * 256 + b) * 256 + c) * 256 + d) # be32 r"
| "be32 _ = []"

fun sha_blocks :: "nat list \<Rightarrow> nat list \<Rightarrow> nat list" where
  "sha_blocks h [] = h"
| "sha_blocks h (w # ws) = sha_blocks (compress h (take 16 (w # ws))) (drop 16 (w # ws))"

definition sha256 :: "nat list \<Rightarrow> nat list" where
  "sha256 bs = sha_blocks H256 (be32 (sha_pad bs))"

definition hex_digit :: "nat \<Rightarrow> char" where
  "hex_digit n = ''0123456789abcdef'' ! n"

definition hex32 :: "nat \<Rightarrow> string" where
  "hex32 w = map (\<lambda>i. hex_digit (w div 16 ^ i mod 16)) [7, 6, 5, 4, 3, 2, 1, 0]"

definition encode :: "string \<Rightarrow> nat list" where
  "encode s = map of_char s"

text \<open>\<open>hashlib.sha256(s.encode()).hexdigest()\<close>: 64 lower-case hexadecimal digits.\<close>

definition sha256_hexdigest :: "string \<Rightarrow> string" where
  "sha256_hexdigest s = concat (map hex32 (sha256 (encode s)))"

section \<open>assign\_master\_ids.py: generate\_master\_id\<close>

fun join :: "string \<Rightarrow> string list \<Rightarrow> string" where
  "join sep [] = []"
| "join sep [x] = x"
| "join sep (x # y # ys) = x @ sep @ join sep (y # ys)"

text \<open>\<open>components.get(key, '')\<close> on the dictionary of components.\<close>

definition get_or_empty :: "(string \<rightharpoonup> string) \<Rightarrow> string \<Rightarrow> string" where
  "get_or_empty components k = (case components k of None \<Rightarrow> [] | Some v \<Rightarrow> v)"

definition key_string :: "(string \<rightharpoonup> string) \<Rightarrow> string" where
  "key_string components =
     join ''|''
       [strip (upper (get_or_empty components ''last_name'')),
        take 3 (strip (upper (get_or_empty components ''first_name''))),
        take 5 (get_or_empty components ''zip''),
        get_or_empty components ''street_num'']"

definition generate_master_id :: "(string \<rightharpoonup> string) \<Rightarrow> string" where
  "generate_master_id components =
     ''MP_'' @ upper (take 12 (sha256_hexdigest (key_string components)))"

text \<open>
  The id in the words of the specification: the digest of the pipe-joined key
  \<open>last_name|first_name[:3]|zip[:5]|street_number\<close> of the components as they are given.
\<close>

definition spec_key_string :: "(string \<rightharpoonup> string) \<Rightarrow> string" where
  "spec_key_string components =
     join ''|''
       [get_or_empty components ''last_name'',
        take 3 (get_or_empty components ''first_name''),
        take 5 (get_or_empty components ''zip''),
        get_or_empty components ''street_num'']"

definition spec_master_id :: "(string \<rightharpoonup> string) \<Rightarrow> string" where
  "spec_master_id components =
     ''MP_'' @ upper (take 12 (sha256_hexdigest (spec_key_string components)))"

definition example_components :: "string \<Rightarrow> string \<Rightarrow> string \<Rightarrow> string \<Rightarrow> (string \<rightharpoonup> string)" where
  "example_components lname fname z snum =
     [''last_name'' \<mapsto> lname, ''first_name'' \<mapsto> fname, ''zip'' \<mapsto> z,
      ''street_num'' \<mapsto> snum]"

section \<open>assign\_master\_ids.py: clustering\<close>

definition components :: "DonorRecord \<Rightarrow> (string \<rightharpoonup> string)" where
  "components r =
     [''last_name'' \<mapsto> last_name r, ''first_name'' \<mapsto> first_name r, ''zip'' \<mapsto> zipcode r,
      ''street_num'' \<mapsto> extract_street_number (street_address r)]"

text \<open>
  The inner loop over \<open>block[i+1:]\<close> for the seed \<open>r\<close>: the state is the store and the set
  \<open>assigned\<close>; \<open>match_records\<close> is called only for a record whose id is not yet assigned.
\<close>

fun propagate ::
  "DonorRecord \<Rightarrow> (DonorRecord list \<times> int set) option \<Rightarrow> nat \<Rightarrow> (DonorRecord list \<times> int set) option"
where
  "propagate r None j = None"
| "propagate r (Some (store, assigned)) j =
     (let other = store ! j in
      if id' other \<in> assigned then Some (store, assigned)
      else case match_records r other of
        None \<Rightarrow> None
      | Some (is_match, score) \<Rightarrow>
          if is_match
          then Some (store[j := other\<lparr>master_person_id := master_person_id r\<rparr>],
                     insert (id' other) assigned)
          else Some (store, assigned))"

text \<open>The outer loop over the members of one block, on the members still to come.\<close>

fun block_loop ::
  "(DonorRecord list \<times> int set) option \<Rightarrow> nat list \<Rightarrow> (DonorRecord list \<times> int set) option"
where
  "block_loop None block = None"
| "block_loop (Some (store, assigned)) [] = Some (store, assigned)"
| "block_loop (Some (store, assigned)) (i # rest) =
     (let r = store ! i in
      if id' r \<in> assigned then block_loop (Some (store, assigned)) rest
      else
        let r = r\<lparr>master_person_id := Some (generate_master_id (components r))\<rparr>
        in block_loop
             (foldl (propagate r) (Some (store[i := r], insert (id' r) assigned)) rest) rest)"

definition assign_master_ids :: "DonorRecord list \<Rightarrow> DonorRecord list option" where
  "assign_master_ids records =
     foldl (\<lambda>store (key, block).
              case store of
                None \<Rightarrow> None
              | Some s \<Rightarrow> map_option fst (block_loop (Some (s, {})) block))
       (Some records) (build_blocks records)"





section \<open>normalize\_addresses.py: street addresses\<close>

text \<open>\<open>re.sub(r'\s+', ' ', addr)\<close>: every run of whitespace becomes one blank.\<close>

function collapse_ws :: "string \<Rightarrow> string" where
  "collapse_ws [] = []"
| "collapse_ws (c # cs) =
     (if is_space c then CHR '' '' # collapse_ws (dropWhile is_space cs)
      else c # collapse_ws cs)"
  by pat_completeness auto
termination
  by (relation "measure length") (auto simp: le_imp_less_Suc length_dropWhile_le)

text \<open>
  \<open>re.sub(r'\b' + full + r'\b', abbrev, addr)\<close> for a literal, non-empty \<open>full\<close>: the
  string is scanned from the left, and \<open>full\<close> is replaced where it occurs between two
  word boundaries.  A word boundary lies between a word character and a character that is
  none (or an end of the string); \<open>prev_word\<close> says whether the character before the
  current position is a word character.  The scan continues after a replaced occurrence.
\<close>

function sub_word :: "string \<Rightarrow> string \<Rightarrow> bool \<Rightarrow> string \<Rightarrow> string" where
  "sub_word full abbrev prev_word [] = []"
| "sub_word full abbrev prev_word (c # cs) =
     (if full \<noteq> [] \<and> take (length full) (c # cs) = full
         \<and> prev_word \<noteq> is_word c
         \<and> is_word (last full) \<noteq>
             (case drop (length full) (c # cs) of [] \<Rightarrow> False | d # _ \<Rightarrow> is_word d)
      then abbrev @ sub_word full abbrev (is_word (last full)) (drop (length full) (c # cs))
      else c # sub_word full abbrev (is_word c) cs)"
  by pat_completeness auto
termination
  by (relation "measure (\<lambda>(full, abbrev, prev_word, s). length s)") auto

declare sub_word.simps [simp del]

definition STREET_ABBREVS :: "(string \<times> string) list" where
  "STREET_ABBREVS =
     [(''STREET'', ''ST''), (''AVENUE'', ''AVE''), (''BOULEVARD'', ''BLVD''), (''DRIVE'', ''DR''),
      (''LANE'', ''LN''), (''ROAD'', ''RD''), (''COURT'', ''CT''), (''CIRCLE'', ''CIR''),
      (''PLACE'', ''PL''), (''TERRACE'', ''TER''), (''TRAIL'', ''TRL''), (''HIGHWAY'', ''HWY''),
      (''PARKWAY'', ''PKWY''), (''WAY'', ''WAY''), (''NORTH'', ''N''), (''SOUTH'', ''S''),
      (''EAST'', ''E''), (''WEST'', ''W''), (''NORTHEAST'', ''NE''), (''NORTHWEST'', ''NW''),
      (''SOUTHEAST'', ''SE''), (''SOUTHWEST'', ''SW''), (''APARTMENT'', ''APT''),
      (''SUITE'', ''STE''), (''BUILDING'', ''BLDG''), (''FLOOR'', ''FL''), (''UNIT'', ''UNIT''),
      (''PO BOX'', ''PO BOX''), (''POST OFFICE BOX'', ''PO BOX'')]"

definition normalize_address :: "string \<Rightarrow> string" where
  "normalize_address address =
     (if address = [] then []
      else
        let addr = strip (upper address);
            addr = collapse_ws addr;
            addr = filter (\<lambda>c. c \<notin> set ''.,#'') addr
        in foldl (\<lambda>addr (full, abbrev). sub_word full abbrev False addr) addr STREET_ABBREVS)"

section \<open>household\_id\_builder.py\<close>

text \<open>
  \<open>str.replace(old, new)\<close> for a non-empty \<open>old\<close>: every occurrence, from the left, without
  overlap.  (The source calls it with non-empty literals only.)
\<close>

function str_replace :: "string \<Rightarrow> string \<Rightarrow> string \<Rightarrow> string" where
  "str_replace old new [] = []"
| "str_replace old new (c # cs) =
     (if old \<noteq> [] \<and> take (length old) (c # cs) = old
      then new @ str_replace old new (drop (length old) (c # cs))
      else c # str_replace old new cs)"
  by pat_completeness auto
termination
  by (relation "measure (\<lambda>(old, new, s). length s)") auto

declare str_replace.simps [simp del]

text \<open>\<open>str.split()\<close>: the maximal runs of non-whitespace characters.\<close>

fun split_from :: "string \<Rightarrow> string \<Rightarrow> string list" where
  "split_from word [] = (if word = [] then [] else [word])"
| "split_from word (c # cs) =
     (if is_space c then (if word = [] then split_from [] cs else word # split_from [] cs)
      else split_from (word @ [c]) cs)"

definition split :: "string \<Rightarrow> string list" where
  "split s = split_from [] s"

definition household_abbrevs :: "(string \<times> string) list" where
  "household_abbrevs =
     [('' STREET'', '' ST''), ('' AVENUE'', '' AVE''), ('' DRIVE'', '' DR''), ('' ROAD'', '' RD''),
      ('' LANE'', '' LN''), ('' COURT'', '' CT''), ('' CIRCLE'', '' CIR''),
      ('' BOULEVARD'', '' BLVD'')]"

text \<open>
  \<open>create_address_key\<close> of the household builder, on the three column values of a row;
  \<open>None\<close> is the source's \<open>None\<close> for a row without street or ZIP.
\<close>

definition household_street :: "string \<Rightarrow> string" where
  "household_street street =
     join '' '' (split (foldl (\<lambda>s (old, new). str_replace old new s) street household_abbrevs))"

definition create_address_key :: "string \<Rightarrow> string \<Rightarrow> string \<Rightarrow> string option" where
  "create_address_key street_line_1 city_col zip_col =
     (let street = strip (upper street_line_1);
          city = strip (upper city_col);
          zip_code = strip (take 5 zip_col)
      in if street = [] \<or> zip_code = [] \<or> street = ''NAN'' \<or> zip_code = ''NAN'' then None
         else Some (household_street street @ ''|'' @ city @ ''|'' @ zip_code))"

text \<open>
  \<open>generate_household_id\<close>: the first 16 bytes of the digest, printed as a UUID, that is,
  the first 32 hexadecimal digits in groups of 8, 4, 4, 4 and 12.
\<close>

definition generate_household_id :: "string \<Rightarrow> string" where
  "generate_household_id address_key =
     (let h = sha256_hexdigest address_key
      in take 8 h @ ''-'' @ take 4 (drop 8 h) @ ''-'' @ take 4 (drop 12 h) @ ''-''
           @ take 4 (drop 16 h) @ ''-'' @ take 12 (drop 20 h))"

text \<open>The \<open>household_id\<close> column that \<open>assign_household_ids\<close> gives a row.\<close>

definition household_id :: "string \<Rightarrow> string \<Rightarrow> string \<Rightarrow> string option" where
  "household_id street_line_1 city_col zip_col =
     (case create_address_key street_line_1 city_col zip_col of
        None \<Rightarrow> None
      | Some key \<Rightarrow> if key = [] then None else Some (generate_household_id key))"

section \<open>Notions for reasoning about the matching loop\<close>

text \<open>
  The state of the matching loop after \<open>k\<close> iterations, the position of \<open>s2\<close> that
  iteration \<open>i\<close> matches (if any), and the number of flags that are set.
\<close>

definition mstate :: "string \<Rightarrow> string \<Rightarrow> nat \<Rightarrow> nat \<Rightarrow> bool list \<times> bool list \<times> nat" where
  "mstate s1 s2 d k =
     foldl (match_step s1 s2 d) (replicate (length s1) False, replicate (length s2) False, 0) [0..<k]"

definition partner :: "string \<Rightarrow> string \<Rightarrow> nat \<Rightarrow> nat \<Rightarrow> nat option" where
  "partner s1 s2 d i = find_match s1 s2 d (fst (snd (mstate s1 s2 d i))) i"

definition count_true :: "bool list \<Rightarrow> nat" where
  "count_true bs = length (filter (\<lambda>b. b) bs)"

text \<open>
  The matched positions of a flag list in increasing order, and the number of transpositions
  as a count over the two lists of matched positions.
\<close>

definition matched :: "bool list \<Rightarrow> nat list" where
  "matched bs = filter (\<lambda>i. bs ! i) [0..<length bs]"

definition transp_upto :: "string \<Rightarrow> string \<Rightarrow> bool list \<Rightarrow> bool list \<Rightarrow> nat \<Rightarrow> nat" where
  "transp_upto s1 s2 a b p =
     length (filter (\<lambda>q. s1 ! (matched a ! q) \<noteq> s2 ! (matched b ! q)) [0..<p])"

definition transp_count :: "string \<Rightarrow> string \<Rightarrow> bool list \<Rightarrow> bool list \<Rightarrow> nat" where
  "transp_count s1 s2 a b = transp_upto s1 s2 a b (count_true a)"

definition matched_before :: "bool list \<Rightarrow> nat \<Rightarrow> nat" where
  "matched_before a i = length (filter (\<lambda>x. a ! x) [0..<i])"

section \<open>Notions for reasoning about the clustering loops\<close>

text \<open>
  A record without its master id; a store that agrees with the input records on all other
  fields and holds, at the positions \<open>W\<close> written so far, the id of the record's own
  canonical key; and a set of assigned ids that are ids of written positions.
\<close>

definition clear_id :: "DonorRecord \<Rightarrow> DonorRecord" where
  "clear_id r = r\<lparr>master_person_id := None\<rparr>"



section \<open>Evaluation rules\<close>

text \<open>
  The character functions on the letters, the digits, the blank and the punctuation of the
  examples, as rewrite rules: concrete strings are evaluated with these tables.
\<close>

lemma upper_char_eval:
  "upper_char CHR ''a'' = CHR ''A''" "upper_char CHR ''b'' = CHR ''B''" "upper_char CHR ''c'' = CHR ''C''"
  "upper_char CHR ''d'' = CHR ''D''" "upper_char CHR ''e'' = CHR ''E''" "upper_char CHR ''f'' = CHR ''F''"
  "upper_char CHR ''g'' = CHR ''G''" "upper_char CHR ''h'' = CHR ''H''" "upper_char CHR ''i'' = CHR ''I''"
  "upper_char CHR ''j'' = CHR ''J''" "upper_char CHR ''k'' = CHR ''K''" "upper_char CHR ''l'' = CHR ''L''"
  "upper_char CHR ''m'' = CHR ''M''" "upper_char CHR ''n'' = CHR ''N''" "upper_char CHR ''o'' = CHR ''O''"
  "upper_char CHR ''p'' = CHR ''P''" "upper_char CHR ''q'' = CHR ''Q''" "upper_char CHR ''r'' = CHR ''R''"
  "upper_char CHR ''s'' = CHR ''S''" "upper_char CHR ''t'' = CHR ''T''" "upper_char CHR ''u'' = CHR ''U''"
  "upper_char CHR ''v'' = CHR ''V''" "upper_char CHR ''w'' = CHR ''W''" "upper_char CHR ''x'' = CHR ''X''"
  "upper_char CHR ''y'' = CHR ''Y''" "upper_char CHR ''z'' = CHR ''Z''" "upper_char CHR ''A'' = CHR ''A''"
  "upper_char CHR ''B'' = CHR ''B''" "upper_char CHR ''C'' = CHR ''C''" "upper_char CHR ''D'' = CHR ''D''"
  "upper_char CHR ''E'' = CHR ''E''" "upper_char CHR ''F'' = CHR ''F''" "upper_char CHR ''G'' = CHR ''G''"
  "upper_char CHR ''H'' = CHR ''H''" "upper_char CHR ''I'' = CHR ''I''" "upper_char CHR ''J'' = CHR ''J''"
  "upper_char CHR ''K'' = CHR ''K''" "upper_char CHR ''L'' = CHR ''L''" "upper_char CHR ''M'' = CHR ''M''"
  "upper_char CHR ''N'' = CHR ''N''" "upper_char CHR ''O'' = CHR ''O''" "upper_char CHR ''P'' = CHR ''P''"
  "upper_char CHR ''Q'' = CHR ''Q''" "upper_char CHR ''R'' = CHR ''R''" "upper_char CHR ''S'' = CHR ''S''"
  "upper_char CHR ''T'' = CHR ''T''" "upper_char CHR ''U'' = CHR ''U''" "upper_char CHR ''V'' = CHR ''V''"
  "upper_char CHR ''W'' = CHR ''W''" "upper_char CHR ''X'' = CHR ''X''" "upper_char CHR ''Y'' = CHR ''Y''"
  "upper_char CHR ''Z'' = CHR ''Z''" "upper_char CHR ''0'' = CHR ''0''" "upper_char CHR ''1'' = CHR ''1''"
  "upper_char CHR ''2'' = CHR ''2''" "upper_char CHR ''3'' = CHR ''3''" "upper_char CHR ''4'' = CHR ''4''"
  "upper_char CHR ''5'' = CHR ''5''" "upper_char CHR ''6'' = CHR ''6''" "upper_char CHR ''7'' = CHR ''7''"
  "upper_char CHR ''8'' = CHR ''8''" "upper_char CHR ''9'' = CHR ''9''" "upper_char CHR '' '' = CHR '' ''"
  "upper_char CHR ''|'' = CHR ''|''" "upper_char CHR ''-'' = CHR ''-''" "upper_char CHR ''.'' = CHR ''.''"
  "upper_char CHR '','' = CHR '',''" "upper_char CHR ''#'' = CHR ''#''" "upper_char CHR ''_'' = CHR ''_''"
  by (simp_all add: upper_char_def)

lemma lower_char_eval:
  "lower_char CHR ''a'' = CHR ''a''" "lower_char CHR ''b'' = CHR ''b''" "lower_char CHR ''c'' = CHR ''c''"
  "lower_char CHR ''d'' = CHR ''d''" "lower_char CHR ''e'' = CHR ''e''" "lower_char CHR ''f'' = CHR ''f''"
  "lower_char CHR ''g'' = CHR ''g''" "lower_char CHR ''h'' = CHR ''h''" "lower_char CHR ''i'' = CHR ''i''"
  "lower_char CHR ''j'' = CHR ''j''" "lower_char CHR ''k'' = CHR ''k''" "lower_char CHR ''l'' = CHR ''l''"
  "lower_char CHR ''m'' = CHR ''m''" "lower_char CHR ''n'' = CHR ''n''" "lower_char CHR ''o'' = CHR ''o''"
  "lower_char CHR ''p'' = CHR ''p''" "lower_char CHR ''q'' = CHR ''q''" "lower_char CHR ''r'' = CHR ''r''"
  "lower_char CHR ''s'' = CHR ''s''" "lower_char CHR ''t'' = CHR ''t''" "lower_char CHR ''u'' = CHR ''u''"
  "lower_char CHR ''v'' = CHR ''v''" "lower_char CHR ''w'' = CHR ''w''" "lower_char CHR ''x'' = CHR ''x''"
  "lower_char CHR ''y'' = CHR ''y''" "lower_char CHR ''z'' = CHR ''z''" "lower_char CHR ''A'' = CHR ''a''"
  "lower_char CHR ''B'' = CHR ''b''" "lower_char CHR ''C'' = CHR ''c''" "lower_char CHR ''D'' = CHR ''d''"
  "lower_char CHR ''E'' = CHR ''e''" "lower_char CHR ''F'' = CHR ''f''" "lower_char CHR ''G'' = CHR ''g''"
  "lower_char CHR ''H'' = CHR ''h''" "lower_char CHR ''I'' = CHR ''i''" "lower_char CHR ''J'' = CHR ''j''"
  "lower_char CHR ''K'' = CHR ''k''" "lower_char CHR ''L'' = CHR ''l''" "lower_char CHR ''M'' = CHR ''m''"
  "lower_char CHR ''N'' = CHR ''n''" "lower_char CHR ''O'' = CHR ''o''" "lower_char CHR ''P'' = CHR ''p''"
  "lower_char CHR ''Q'' = CHR ''q''" "lower_char CHR ''R'' = CHR ''r''" "lower_char CHR ''S'' = CHR ''s''"
  "lower_char CHR ''T'' = CHR ''t''" "lower_char CHR ''U'' = CHR ''u''" "lower_char CHR ''V'' = CHR ''v''"
  "lower_char CHR ''W'' = CHR ''w''" "lower_char CHR ''X'' = CHR ''x''" "lower_char CHR ''Y'' = CHR ''y''"
  "lower_char CHR ''Z'' = CHR ''z''" "lower_char CHR ''0'' = CHR ''0''" "lower_char CHR ''1'' = CHR ''1''"
  "lower_char CHR ''2'' = CHR ''2''" "lower_char CHR ''3'' = CHR ''3''" "lower_char CHR ''4'' = CHR ''4''"
  "lower_char CHR ''5'' = CHR ''5''" "lower_char CHR ''6'' = CHR ''6''" "lower_char CHR ''7'' = CHR ''7''"
  "lower_char CHR ''8'' = CHR ''8''" "lower_char CHR ''9'' = CHR ''9''" "lower_char CHR '' '' = CHR '' ''"
  "lower_char CHR ''|'' = CHR ''|''" "lower_char CHR ''-'' = CHR ''-''" "lower_char CHR ''.'' = CHR ''.''"
  "lower_char CHR '','' = CHR '',''" "lower_char CHR ''#'' = CHR ''#''" "lower_char CHR ''_'' = CHR ''_''"
  by (simp_all add: lower_char_def)

lemma is_space_eval:
  "\<not> is_space CHR ''a''" "\<not> is_space CHR ''b''" "\<not> is_space CHR ''c''"
  "\<not> is_space CHR ''d''" "\<not> is_space CHR ''e''" "\<not> is_space CHR ''f''"
  "\<not> is_space CHR ''g''" "\<not> is_space CHR ''h''" "\<not> is_space CHR ''i''"
  "\<not> is_space CHR ''j''" "\<not> is_space CHR ''k''" "\<not> is_space CHR ''l''"
  "\<not> is_space CHR ''m''" "\<not> is_space CHR ''n''" "\<not> is_space CHR ''o''"
  "\<not> is_space CHR ''p''" "\<not> is_space CHR ''q''" "\<not> is_space CHR ''r''"
  "\<not> is_space CHR ''s''" "\<not> is_space CHR ''t''" "\<not> is_space CHR ''u''"
  "\<not> is_space CHR ''v''" "\<not> is_space CHR ''w''" "\<not> is_space CHR ''x''"
  "\<not> is_space CHR ''y''" "\<not> is_space CHR ''z''" "\<not> is_space CHR ''A''"
  "\<not> is_space CHR ''B''" "\<not> is_space CHR ''C''" "\<not> is_space CHR ''D''"
  "\<not> is_space CHR ''E''" "\<not> is_space CHR ''F''" "\<not> is_space CHR ''G''"
  "\<not> is_space CHR ''H''" "\<not> is_space CHR ''I''" "\<not> is_space CHR ''J''"
  "\<not> is_space CHR ''K''" "\<not> is_space CHR ''L''" "\<not> is_space CHR ''M''"
  "\<not> is_space CHR ''N''" "\<not> is_space CHR ''O''" "\<not> is_space CHR ''P''"
  "\<not> is_space CHR ''Q''" "\<not> is_space CHR ''R''" "\<not> is_space CHR ''S''"
  "\<not> is_space CHR ''T''" "\<not> is_space CHR ''U''" "\<not> is_space CHR ''V''"
  "\<not> is_space CHR ''W''" "\<not> is_space CHR ''X''" "\<not> is_space CHR ''Y''"
  "\<not> is_space CHR ''Z''" "\<not> is_space CHR ''0''" "\<not> is_space CHR ''1''"
  "\<not> is_space CHR ''2''" "\<not> is_space CHR ''3''" "\<not> is_space CHR ''4''"
  "\<not> is_space CHR ''5''" "\<not> is_space CHR ''6''" "\<not> is_space CHR ''7''"
  "\<not> is_space CHR ''8''" "\<not> is_space CHR ''9''" "is_space CHR '' ''"
  "\<not> is_space CHR ''|''" "\<not> is_space CHR ''-''" "\<not> is_space CHR ''.''"
  "\<not> is_space CHR '',''" "\<not> is_space CHR ''#''" "\<not> is_space CHR ''_''"
  by (simp_all add: is_space_def)

lemma is_digit_eval:
  "\<not> is_digit CHR ''a''" "\<not> is_digit CHR ''b''" "\<not> is_digit CHR ''c''"
  "\<not> is_digit CHR ''d''" "\<not> is_digit CHR ''e''" "\<not> is_digit CHR ''f''"
  "\<not> is_digit CHR ''g''" "\<not> is_digit CHR ''h''" "\<not> is_digit CHR ''i''"
  "\<not> is_digit CHR ''j''" "\<not> is_digit CHR ''k''" "\<not> is_digit CHR ''l''"
  "\<not> is_digit CHR ''m''" "\<not> is_digit CHR ''n''" "\<not> is_digit CHR ''o''"
  "\<not> is_digit CHR ''p''" "\<not> is_digit CHR ''q''" "\<not> is_digit CHR ''r''"
  "\<not> is_digit CHR ''s''" "\<not> is_digit CHR ''t''" "\<not> is_digit CHR ''u''"
  "\<not> is_digit CHR ''v''" "\<not> is_digit CHR ''w''" "\<not> is_digit CHR ''x''"
  "\<not> is_digit CHR ''y''" "\<not> is_digit CHR ''z''" "\<not> is_digit CHR ''A''"
  "\<not> is_digit CHR ''B''" "\<not> is_digit CHR ''C''" "\<not> is_digit CHR ''D''"
  "\<not> is_digit CHR ''E''" "\<not> is_digit CHR ''F''" "\<not> is_digit CHR ''G''"
  "\<not> is_digit CHR ''H''" "\<not> is_digit CHR ''I''" "\<not> is_digit CHR ''J''"
  "\<not> is_digit CHR ''K''" "\<not> is_digit CHR ''L''" "\<not> is_digit CHR ''M''"
  "\<not> is_digit CHR ''N''" "\<not> is_digit CHR ''O''" "\<not> is_digit CHR ''P''"
  "\<not> is_digit CHR ''Q''" "\<not> is_digit CHR ''R''" "\<not> is_digit CHR ''S''"
  "\<not> is_digit CHR ''T''" "\<not> is_digit CHR ''U''" "\<not> is_digit CHR ''V''"
  "\<not> is_digit CHR ''W''" "\<not> is_digit CHR ''X''" "\<not> is_digit CHR ''Y''"
  "\<not> is_digit CHR ''Z''" "is_digit CHR ''0''" "is_digit CHR ''1''"
  "is_digit CHR ''2''" "is_digit CHR ''3''" "is_digit CHR ''4''"
  "is_digit CHR ''5''" "is_digit CHR ''6''" "is_digit CHR ''7''"
  "is_digit CHR ''8''" "is_digit CHR ''9''" "\<not> is_digit CHR '' ''"
  "\<not> is_digit CHR ''|''" "\<not> is_digit CHR ''-''" "\<not> is_digit CHR ''.''"
  "\<not> is_digit CHR '',''" "\<not> is_digit CHR ''#''" "\<not> is_digit CHR ''_''"
  by (simp_all add: is_digit_def)

lemma is_word_eval:
  "is_word CHR ''a''" "is_word CHR ''b''" "is_word CHR ''c''"
  "is_word CHR ''d''" "is_word CHR ''e''" "is_word CHR ''f''"
  "is_word CHR ''g''" "is_word CHR ''h''" "is_word CHR ''i''"
  "is_word CHR ''j''" "is_word CHR ''k''" "is_word CHR ''l''"
  "is_word CHR ''m''" "is_word CHR ''n''" "is_word CHR ''o''"
  "is_word CHR ''p''" "is_word CHR ''q''" "is_word CHR ''r''"
  "is_word CHR ''s''" "is_word CHR ''t''" "is_word CHR ''u''"
  "is_word CHR ''v''" "is_word CHR ''w''" "is_word CHR ''x''"
  "is_word CHR ''y''" "is_word CHR ''z''" "is_word CHR ''A''"
  "is_word CHR ''B''" "is_word CHR ''C''" "is_word CHR ''D''"
  "is_word CHR ''E''" "is_word CHR ''F''" "is_word CHR ''G''"
  "is_word CHR ''H''" "is_word CHR ''I''" "is_word CHR ''J''"
  "is_word CHR ''K''" "is_word CHR ''L''" "is_word CHR ''M''"
  "is_word CHR ''N''" "is_word CHR ''O''" "is_word CHR ''P''"
  "is_word CHR ''Q''" "is_word CHR ''R''" "is_word CHR ''S''"
  "is_word CHR ''T''" "is_word CHR ''U''" "is_word CHR ''V''"
  "is_word CHR ''W''" "is_word CHR ''X''" "is_word CHR ''Y''"
  "is_word CHR ''Z''" "is_word CHR ''0''" "is_word CHR ''1''"
  "is_word CHR ''2''" "is_word CHR ''3''" "is_word CHR ''4''"
  "is_word CHR ''5''" "is_word CHR ''6''" "is_word CHR ''7''"
  "is_word CHR ''8''" "is_word CHR ''9''" "\<not> is_word CHR '' ''"
  "\<not> is_word CHR ''|''" "\<not> is_word CHR ''-''" "\<not> is_word CHR ''.''"
  "\<not> is_word CHR '',''" "\<not> is_word CHR ''#''" "is_word CHR ''_''"
  by (simp_all add: is_word_def is_lower_def is_upper_def is_digit_def)

lemmas str_defs = upper_char_eval lower_char_eval is_space_eval is_digit_eval is_word_eval
  upper_def lower_def lstrip_def rstrip_def strip_def

lemmas jw_defs = find_match_def match_loop_def transp_loop_def jaro_value_def jaro_def
  prefix_len_def jaro_winkler_def calculate_name_similarity_def

lemma replicate_numeral: "replicate (numeral k) x = x # replicate (pred_numeral k) x"
  by (simp add: numeral_eq_Suc)

section \<open>Normalisation lemmas\<close>

lemma is_space_upper_char: "is_space (upper_char c) = is_space c"
  by (auto simp: upper_char_def is_space_def)

lemma upper_char_idem: "upper_char (upper_char c) = upper_char c"
  by (auto simp: upper_char_def)

lemma upper_idem: "upper (upper s) = upper s"
  by (simp add: upper_def upper_char_idem)

lemma lstrip_upper: "lstrip (upper s) = upper (lstrip s)"
proof -
  have "is_space \<circ> upper_char = is_space"
    by (rule ext) (simp add: is_space_upper_char)
  then show ?thesis
    by (simp add: lstrip_def upper_def dropWhile_map)
qed

lemma rstrip_upper: "rstrip (upper s) = upper (rstrip s)"
proof -
  have "is_space \<circ> upper_char = is_space"
    by (rule ext) (simp add: is_space_upper_char)
  then show ?thesis
    by (simp add: rstrip_def upper_def dropWhile_map rev_map)
qed

lemma strip_upper: "strip (upper s) = upper (strip s)"
  by (simp add: strip_def lstrip_upper rstrip_upper)

lemma rstrip_idem: "rstrip (rstrip s) = rstrip s"
  by (simp add: rstrip_def)

lemma lstrip_rstrip_lstrip: "lstrip (rstrip (lstrip s)) = rstrip (lstrip s)"
proof (cases "rstrip (lstrip s)")
  case Nil
  then show ?thesis by (simp add: lstrip_def)
next
  case (Cons c cs)
  obtain d ds where t: "lstrip s = d # ds"
    using Cons by (cases "lstrip s") (auto simp: rstrip_def)
  have nd: "\<not> is_space d"
    using t unfolding lstrip_def by (metis dropWhile_eq_Cons_conv)
  have "rstrip (d # ds) = d # rstrip ds \<or> rstrip (d # ds) = [d]"
    by (auto simp: rstrip_def dropWhile_append nd split: if_splits)
  then have "c = d" using Cons t by auto
  then show ?thesis using Cons nd by (simp add: lstrip_def)
qed

lemma strip_idem: "strip (strip s) = strip s"
  by (simp add: strip_def lstrip_rstrip_lstrip rstrip_idem)

lemma normalise_idem: "strip (upper (strip (upper s))) = strip (upper s)"
  by (simp add: strip_upper upper_idem strip_idem)

section \<open>Claims about the similarity scorer\<close>

text \<open>
  Claim C5.  On the names MARY and GARY the source returns 53/60: the Jaro similarity is
  5/6, the two names have no common prefix, and the source counts 3, the positions among
  the first four where the two names agree.  The formula of the specification, with the
  length of the common prefix, gives 5/6.
\<close>

theorem similarity_MARY_GARY:
  "calculate_name_similarity ''MARY'' ''GARY'' = Some (53 / 60)
   \<and> jaro ''MARY'' ''GARY'' = Some (5 / 6)
   \<and> common_prefix_len ''MARY'' ''GARY'' = 0
   \<and> prefix_len ''MARY'' ''GARY'' = 3
   \<and> (53 / 60 :: rat) \<noteq> 5 / 6 + (1 / 10) * of_nat (common_prefix_len ''MARY'' ''GARY'') * (1 - 5 / 6)"
  by (simp add: jw_defs str_defs common_prefix_len_def)

text \<open>
  Claim C10 as stated fails on two blank names: the source returns 1.0 for them (the
  stripped strings are equal), and 0.0 for their normal forms, which are empty.
\<close>

theorem similarity_blank_counterexample:
  "calculate_name_similarity '' '' '' '' \<noteq>
     calculate_name_similarity (strip (upper '' '')) (strip (upper '' ''))"
  by (simp add: calculate_name_similarity_def str_defs)

text \<open>
  Claim C10, amended.  For all strings \<open>a\<close> and \<open>b\<close> that are not both non-empty with
  an empty normal form, the similarity of \<open>a\<close> and \<open>b\<close> is the similarity of their
  upper-cased, stripped forms; and two non-empty names with the same upper-cased, stripped
  form score exactly 1.
\<close>

theorem similarity_normalised:
  "(\<not> (a \<noteq> [] \<and> b \<noteq> [] \<and> strip (upper a) = [] \<and> strip (upper b) = []) \<longrightarrow>
      calculate_name_similarity a b =
        calculate_name_similarity (strip (upper a)) (strip (upper b)))
   \<and> (a \<noteq> [] \<and> b \<noteq> [] \<and> strip (upper a) = strip (upper b) \<longrightarrow>
      calculate_name_similarity a b = Some 1)"
proof (intro conjI impI)
  assume h: "\<not> (a \<noteq> [] \<and> b \<noteq> [] \<and> strip (upper a) = [] \<and> strip (upper b) = [])"
  have e: "strip (upper []) = []"
    by (simp add: str_defs)
  show "calculate_name_similarity a b =
        calculate_name_similarity (strip (upper a)) (strip (upper b))"
  proof (cases "a = [] \<or> b = []")
    case True
    then show ?thesis
      by (auto simp: calculate_name_similarity_def e)
  next
    case False
    show ?thesis
    proof (cases "strip (upper a) = [] \<or> strip (upper b) = []")
      case True
      with False h show ?thesis
        by (auto simp: calculate_name_similarity_def Let_def)
    next
      case False
      then show ?thesis
        using \<open>\<not> (a = [] \<or> b = [])\<close>
        by (simp add: calculate_name_similarity_def Let_def normalise_idem)
    qed
  qed
next
  assume "a \<noteq> [] \<and> b \<noteq> [] \<and> strip (upper a) = strip (upper b)"
  then show "calculate_name_similarity a b = Some 1"
    by (simp add: calculate_name_similarity_def)
qed

theorem similarity_normalised_witness:
  "calculate_name_similarity '' john '' ''JOHN'' =
     calculate_name_similarity (strip (upper '' john '')) (strip (upper ''JOHN''))
   \<and> calculate_name_similarity '' john '' ''JOHN'' = Some 1"
proof -
  have h: "\<not> ('' john '' \<noteq> [] \<and> ''JOHN'' \<noteq> [] \<and> strip (upper '' john '') = []
              \<and> strip (upper ''JOHN'') = [])"
    by (simp add: str_defs)
  have g: "'' john '' \<noteq> [] \<and> ''JOHN'' \<noteq> [] \<and> strip (upper '' john '') = strip (upper ''JOHN'')"
    by (simp add: str_defs)
  from similarity_normalised [of "'' john ''" "''JOHN''"] h g show ?thesis
    by blast
qed

section \<open>The committee linker\<close>








section \<open>The alias override pass\<close>

lemma name_matches_update [simp]:
  "name_matches (d\<lparr>donation_master_person_id := x\<rparr>) a = name_matches d a"
  by (simp add: name_matches_def)

lemma update_row_settled:
  assumes cons: "consistent_aliases aliases"
    and pick: "\<And>qs. qs \<noteq> [] \<Longrightarrow> pick qs \<in> set qs"
  shows "filter (where_clause (fst (update_row pick aliases d))) aliases = []"
proof (cases "filter (where_clause d) aliases")
  case Nil
  then show ?thesis by (simp add: update_row_def)
next
  case (Cons q qs)
  let ?p = "pick (q # qs)"
  have "?p \<in> set (filter (where_clause d) aliases)"
    using pick [of "q # qs"] Cons by simp
  then have p: "?p \<in> set aliases" "name_matches d ?p"
    by (auto simp: where_clause_def)
  have "\<not> where_clause (d\<lparr>donation_master_person_id := alias_master_person_id ?p\<rparr>) a"
    if a: "a \<in> set aliases" for a
  proof (cases "name_matches d a")
    case True
    then have "case (alias_name a, alias_name ?p) of
           (Some n, Some m) \<Rightarrow> upper (sql_trim n) = upper (sql_trim m) | _ \<Rightarrow> False"
      using p(2) by (auto simp: name_matches_def split: option.splits)
    then have "alias_master_person_id a = alias_master_person_id ?p"
      using cons a p(1) unfolding consistent_aliases_def by blast
    then show ?thesis by (simp add: where_clause_def)
  next
    case False
    then show ?thesis by (simp add: where_clause_def)
  qed
  then show ?thesis
    by (simp add: update_row_def Cons filter_empty_conv)
qed

lemma update_row_changed:
  "fst (update_row pick aliases d) \<noteq> d \<or> snd (update_row pick aliases d) \<noteq> 0
     \<Longrightarrow> \<exists>a \<in> set aliases. where_clause d a"
proof (cases "filter (where_clause d) aliases")
  case Nil
  moreover assume "fst (update_row pick aliases d) \<noteq> d \<or> snd (update_row pick aliases d) \<noteq> 0"
  ultimately show ?thesis by (simp add: update_row_def)
next
  case (Cons q qs)
  then have "q \<in> set (filter (where_clause d) aliases)" by simp
  then show ?thesis by auto
qed

text \<open>
  Claim C6 as stated fails on an alias table that gives one name two target ids: whichever
  of the two rows the first pass uses, the other one qualifies in the second pass, which
  writes again.  Here the choice is the first qualifying row.
\<close>

theorem alias_overrides_conflict_counterexample:
  "snd (apply_alias_overrides hd conflicting_aliases
          (fst (apply_alias_overrides hd conflicting_aliases example_donations))) = 1
   \<and> fst (apply_alias_overrides hd conflicting_aliases
          (fst (apply_alias_overrides hd conflicting_aliases example_donations)))
      \<noteq> fst (apply_alias_overrides hd conflicting_aliases example_donations)"
  by (simp add: apply_alias_overrides_def update_row_def where_clause_def name_matches_def
        conflicting_aliases_def example_donations_def sql_trim_def str_defs)

text \<open>
  Claim C6, amended.  For every donation table and every consistent alias table (alias
  rows with the same case-normalised alias name carry the same target id), whichever
  qualifying alias row each pass uses, the second pass leaves the table of the first pass
  unchanged and updates zero rows; and in any pass a row is changed or counted only when
  its case-normalised name equals the case-normalised alias name of an alias row whose
  target id differs from the row's current id.
\<close>

theorem alias_overrides_idempotent:
  assumes "consistent_aliases aliases"
    and "\<And>qs. qs \<noteq> [] \<Longrightarrow> pick1 qs \<in> set qs"
  shows "apply_alias_overrides pick2 aliases (fst (apply_alias_overrides pick1 aliases donations))
           = (fst (apply_alias_overrides pick1 aliases donations), 0)
         \<and> (\<forall>d \<in> set donations.
               fst (update_row pick1 aliases d) \<noteq> d \<or> snd (update_row pick1 aliases d) \<noteq> 0
               \<longrightarrow> (\<exists>a \<in> set aliases. name_matches d a
                      \<and> donation_master_person_id d \<noteq> alias_master_person_id a))"
proof
  have "update_row pick2 aliases (fst (update_row pick1 aliases d))
          = (fst (update_row pick1 aliases d), 0)" for d
    using update_row_settled [OF assms, of d] by (simp add: update_row_def)
  then show "apply_alias_overrides pick2 aliases (fst (apply_alias_overrides pick1 aliases donations))
           = (fst (apply_alias_overrides pick1 aliases donations), 0)"
    by (simp add: apply_alias_overrides_def comp_def)
next
  show "\<forall>d \<in> set donations.
               fst (update_row pick1 aliases d) \<noteq> d \<or> snd (update_row pick1 aliases d) \<noteq> 0
               \<longrightarrow> (\<exists>a \<in> set aliases. name_matches d a
                      \<and> donation_master_person_id d \<noteq> alias_master_person_id a)"
    using update_row_changed [of pick1 aliases] by (auto simp: where_clause_def)
qed

theorem alias_overrides_idempotent_witness:
  "apply_alias_overrides last example_aliases
       (fst (apply_alias_overrides hd example_aliases example_donations))
     = (fst (apply_alias_overrides hd example_aliases example_donations), 0)
   \<and> snd (apply_alias_overrides hd example_aliases example_donations) = 1
   \<and> (\<exists>a \<in> set example_aliases. name_matches (example_donations ! 0) a
         \<and> donation_master_person_id (example_donations ! 0) \<noteq> alias_master_person_id a)"
proof -
  have c: "consistent_aliases example_aliases"
    by (simp add: consistent_aliases_def example_aliases_def sql_trim_def str_defs)
  have p: "\<And>qs :: Alias list. qs \<noteq> [] \<Longrightarrow> hd qs \<in> set qs"
    by simp
  note th = alias_overrides_idempotent [OF c p, of last example_donations]
  have ch: "fst (update_row hd example_aliases (example_donations ! 0)) \<noteq> example_donations ! 0
            \<or> snd (update_row hd example_aliases (example_donations ! 0)) \<noteq> 0"
    by (simp add: update_row_def where_clause_def name_matches_def
        example_aliases_def example_donations_def sql_trim_def str_defs)
  have m: "example_donations ! 0 \<in> set example_donations"
    by (simp add: example_donations_def)
  have n: "snd (apply_alias_overrides hd example_aliases example_donations) = 1"
    by (simp add: apply_alias_overrides_def update_row_def where_clause_def name_matches_def
        example_aliases_def example_donations_def sql_trim_def str_defs)
  from th ch m n show ?thesis by blast
qed

section \<open>Digests of the example keys\<close>

lemmas sha_defs = compress_def K256_def H256_def rotr_def Ch_def Maj_def
  Sigma0_def Sigma1_def sigma0_def sigma1_def Let_def add32_def not32_def

lemma sha256_hexdigest_SMITH_JOH_123:
  "sha256_hexdigest ''SMITH|JOH|27601|123'' =
     ''f9bbfb09bb2dc7e19ad13c4c137ccf5c4b83988477ab8739eae09bf26203ff4a''"
proof -
  have bytes: "encode ''SMITH|JOH|27601|123'' =
      [83, 77, 73, 84, 72, 124, 74, 79, 72, 124, 50, 55, 54, 48, 49, 124, 49, 50, 51]"
    by (simp add: encode_def)
  have blk: "be32 (sha_pad
      [83, 77, 73, 84, 72, 124, 74, 79, 72, 124, 50, 55, 54, 48, 49, 124, 49, 50, 51]) =
      [1397573972, 1216105039, 1216098871, 909128060, 825373568, 0, 0, 0, 0, 0, 0, 0, 0,
       0, 0, 152]"
    by (simp add: sha_pad_def be64_def replicate_numeral)
  have dig: "compress H256
      [1397573972, 1216105039, 1216098871, 909128060, 825373568, 0, 0, 0, 0, 0, 0, 0, 0,
       0, 0, 152] =
      [4189846281, 3140339681, 2597403724, 326946652, 1266915460, 2007729977,
       3940588530, 1644429130]"
    by (simp add: sha_defs)
  show ?thesis
    by (simp add: sha256_hexdigest_def sha256_def bytes blk dig hex32_def hex_digit_def)
qed


lemma sha256_hexdigest_Smith_Joh_123:
  "sha256_hexdigest ''Smith|Joh|27601|123'' =
     ''bb6952b49af6e08a16a977c9c2b53dbc5fcea825acc06811f50baecf93e1e2a7''"
proof -
  have bytes: "encode ''Smith|Joh|27601|123'' =
      [83, 109, 105, 116, 104, 124, 74, 111, 104, 124, 50, 55, 54, 48, 49, 124, 49, 50,
       51]"
    by (simp add: encode_def)
  have blk: "be32 (sha_pad
      [83, 109, 105, 116, 104, 124, 74, 111, 104, 124, 50, 55, 54, 48, 49, 124, 49, 50,
       51]) =
      [1399679348, 1752975983, 1752969783, 909128060, 825373568, 0, 0, 0, 0, 0, 0, 0, 0,
       0, 0, 152]"
    by (simp add: sha_pad_def be64_def replicate_numeral)
  have dig: "compress H256
      [1399679348, 1752975983, 1752969783, 909128060, 825373568, 0, 0, 0, 0, 0, 0, 0, 0,
       0, 0, 152] =
      [3144241844, 2599870602, 380205001, 3266657724, 1607378981, 2898290705,
       4111183567, 2481054375]"
    by (simp add: sha_defs)
  show ?thesis
    by (simp add: sha256_hexdigest_def sha256_def bytes blk dig hex32_def hex_digit_def)
qed

lemma sha256_hexdigest_OAK_PLACE:
  "sha256_hexdigest ''100 OAK PLACE|RALEIGH|27601'' =
     ''26056ee2695de60d811baa573e76d89a4d356d9486aefd93f6f9ce071df8fd1c''"
proof -
  have bytes: "encode ''100 OAK PLACE|RALEIGH|27601'' =
      [49, 48, 48, 32, 79, 65, 75, 32, 80, 76, 65, 67, 69, 124, 82, 65, 76, 69, 73, 71,
       72, 124, 50, 55, 54, 48, 49]"
    by (simp add: encode_def)
  have blk: "be32 (sha_pad
      [49, 48, 48, 32, 79, 65, 75, 32, 80, 76, 65, 67, 69, 124, 82, 65, 76, 69, 73, 71,
       72, 124, 50, 55, 54, 48, 49]) =
      [825241632, 1329679136, 1347174723, 1165775425, 1279609159, 1216098871, 909128064,
       0, 0, 0, 0, 0, 0, 0, 0, 216]"
    by (simp add: sha_pad_def be64_def replicate_numeral)
  have dig: "compress H256
      [825241632, 1329679136, 1347174723, 1165775425, 1279609159, 1216098871, 909128064,
       0, 0, 0, 0, 0, 0, 0, 0, 216] =
      [637890274, 1767761421, 2166073943, 1047976090, 1295347092, 2259615123,
       4143566343, 502856988]"
    by (simp add: sha_defs)
  show ?thesis
    by (simp add: sha256_hexdigest_def sha256_def bytes blk dig hex32_def hex_digit_def)
qed

lemma sha256_hexdigest_OAK_PL:
  "sha256_hexdigest ''100 OAK PL|RALEIGH|27601'' =
     ''bd7899e9b082de4251c9c44de1b29394979034e9aa7f74fc5d3205e3605448c6''"
proof -
  have bytes: "encode ''100 OAK PL|RALEIGH|27601'' =
      [49, 48, 48, 32, 79, 65, 75, 32, 80, 76, 124, 82, 65, 76, 69, 73, 71, 72, 124, 50,
       55, 54, 48, 49]"
    by (simp add: encode_def)
  have blk: "be32 (sha_pad
      [49, 48, 48, 32, 79, 65, 75, 32, 80, 76, 124, 82, 65, 76, 69, 73, 71, 72, 124, 50,
       55, 54, 48, 49]) =
      [825241632, 1329679136, 1347189842, 1095517513, 1195932722, 926298161, 2147483648,
       0, 0, 0, 0, 0, 0, 0, 0, 192]"
    by (simp add: sha_pad_def be64_def replicate_numeral)
  have dig: "compress H256
      [825241632, 1329679136, 1347189842, 1095517513, 1195932722, 926298161, 2147483648,
       0, 0, 0, 0, 0, 0, 0, 0, 192] =
      [3178797545, 2961366594, 1372177485, 3786576788, 2542810345, 2860479740,
       1563559395, 1616136390]"
    by (simp add: sha_defs)
  show ?thesis
    by (simp add: sha256_hexdigest_def sha256_def bytes blk dig hex32_def hex_digit_def)
qed

section \<open>The master id\<close>

lemmas master_id_defs = generate_master_id_def key_string_def spec_master_id_def
  spec_key_string_def get_or_empty_def example_components_def

text \<open>
  Claim C2 as stated fails on components that are not yet upper-cased: the source hashes
  the key \<open>SMITH|JOH|27601|123\<close>, the formula of the claim hashes \<open>Smith|Joh|27601|123\<close>.
\<close>

theorem generate_master_id_raw_key_counterexample:
  "generate_master_id (example_components ''Smith'' ''John'' ''27601'' ''123'')
     = ''MP_F9BBFB09BB2D''
   \<and> spec_master_id (example_components ''Smith'' ''John'' ''27601'' ''123'')
     \<noteq> generate_master_id (example_components ''Smith'' ''John'' ''27601'' ''123'')"
proof -
  have k: "key_string (example_components ''Smith'' ''John'' ''27601'' ''123'')
             = ''SMITH|JOH|27601|123''"
    by (simp add: master_id_defs str_defs)
  have s: "spec_key_string (example_components ''Smith'' ''John'' ''27601'' ''123'')
             = ''Smith|Joh|27601|123''"
    by (simp add: master_id_defs)
  show ?thesis
    unfolding generate_master_id_def spec_master_id_def k s
      sha256_hexdigest_SMITH_JOH_123 sha256_hexdigest_Smith_Joh_123
    by (simp add: str_defs)
qed

text \<open>
  Claim C2, amended.  The id is \<open>MP_\<close> followed by the first 12 hexadecimal digits,
  upper-cased, of the SHA-256 digest of the pipe-joined canonical key, where the canonical
  key takes the last name upper-cased and stripped, the first three characters of the
  upper-cased, stripped first name, the first five characters of the ZIP and the street
  number; two component maps with the same canonical key get the same id.
\<close>

theorem generate_master_id_canonical:
  "generate_master_id c =
     ''MP_'' @ upper (take 12 (sha256_hexdigest
       (join ''|'' [strip (upper (get_or_empty c ''last_name'')),
                   take 3 (strip (upper (get_or_empty c ''first_name''))),
                   take 5 (get_or_empty c ''zip''),
                   get_or_empty c ''street_num''])))
   \<and> (strip (upper (get_or_empty c ''last_name'')) = strip (upper (get_or_empty c' ''last_name''))
       \<and> take 3 (strip (upper (get_or_empty c ''first_name'')))
           = take 3 (strip (upper (get_or_empty c' ''first_name'')))
       \<and> take 5 (get_or_empty c ''zip'') = take 5 (get_or_empty c' ''zip'')
       \<and> get_or_empty c ''street_num'' = get_or_empty c' ''street_num''
       \<longrightarrow> generate_master_id c = generate_master_id c')"
  by (simp add: generate_master_id_def key_string_def)

theorem generate_master_id_canonical_witness:
  "generate_master_id (example_components ''Smith'' ''John'' ''27601'' ''123'')
     = generate_master_id (example_components '' SMITH '' ''johnny'' ''27601-1234'' ''123'')"
proof -
  have "strip (upper (get_or_empty (example_components ''Smith'' ''John'' ''27601'' ''123'')
            ''last_name''))
          = strip (upper (get_or_empty
              (example_components '' SMITH '' ''johnny'' ''27601-1234'' ''123'') ''last_name''))
       \<and> take 3 (strip (upper (get_or_empty
              (example_components ''Smith'' ''John'' ''27601'' ''123'') ''first_name'')))
           = take 3 (strip (upper (get_or_empty
              (example_components '' SMITH '' ''johnny'' ''27601-1234'' ''123'') ''first_name'')))
       \<and> take 5 (get_or_empty (example_components ''Smith'' ''John'' ''27601'' ''123'') ''zip'')
           = take 5 (get_or_empty
              (example_components '' SMITH '' ''johnny'' ''27601-1234'' ''123'') ''zip'')
       \<and> get_or_empty (example_components ''Smith'' ''John'' ''27601'' ''123'') ''street_num''
           = get_or_empty (example_components '' SMITH '' ''johnny'' ''27601-1234'' ''123'')
               ''street_num''"
    by (simp add: get_or_empty_def example_components_def str_defs)
  with generate_master_id_canonical
         [of "example_components ''Smith'' ''John'' ''27601'' ''123''"
             "example_components '' SMITH '' ''johnny'' ''27601-1234'' ''123''"]
  show ?thesis by blast
qed

section \<open>The household key\<close>

lemmas addr_defs = normalize_address_def STREET_ABBREVS_def sub_word.simps Let_def
  household_street_def household_abbrevs_def str_replace.simps split_def create_address_key_def

text \<open>
  Claim C4 as stated fails on the streets \<open>100 Oak Place\<close> and \<open>100 OAK PL\<close>: the street
  canonicalisation of the address normaliser maps both to \<open>100 OAK PL\<close>, the household
  builder replaces eight suffixes only (not \<open>PLACE\<close>), so the two rows get different keys
  and different household ids.
\<close>

theorem household_id_place_counterexample:
  "normalize_address ''100 Oak Place'' = normalize_address ''100 OAK PL''
   \<and> household_id ''100 Oak Place'' ''Raleigh'' ''27601''
       = Some ''26056ee2-695d-e60d-811b-aa573e76d89a''
   \<and> household_id ''100 OAK PL'' ''Raleigh'' ''27601''
       = Some ''bd7899e9-b082-de42-51c9-c44de1b29394''"
proof -
  have n: "normalize_address ''100 Oak Place'' = ''100 OAK PL''"
    "normalize_address ''100 OAK PL'' = ''100 OAK PL''"
    by (simp_all add: addr_defs str_defs)
  have k: "create_address_key ''100 Oak Place'' ''Raleigh'' ''27601''
             = Some ''100 OAK PLACE|RALEIGH|27601''"
    "create_address_key ''100 OAK PL'' ''Raleigh'' ''27601'' = Some ''100 OAK PL|RALEIGH|27601''"
    by (simp_all add: addr_defs str_defs)
  show ?thesis
    by (simp add: household_id_def generate_household_id_def k n Let_def
          sha256_hexdigest_OAK_PLACE sha256_hexdigest_OAK_PL)
qed

text \<open>
  Claim C4, amended.  The household builder has a street normalisation of its own:
  upper-case and strip, replace the eight suffixes STREET, AVENUE, DRIVE, ROAD, LANE,
  COURT, CIRCLE and BOULEVARD after a blank wherever they occur, and collapse whitespace.
  Two rows whose keys under this normalisation agree (same normalised street, same
  upper-cased stripped city, same stripped first five characters of the ZIP) receive the
  same household id; the streets \<open>123 Main Street\<close> and \<open>123 MAIN ST\<close> with the same city and
  ZIP do, and the address normaliser agrees on them as well.
\<close>

theorem household_id_same_key:
  "(create_address_key street1 city1 zip1 = create_address_key street2 city2 zip2 \<longrightarrow>
      household_id street1 city1 zip1 = household_id street2 city2 zip2)
   \<and> household_id ''123 Main Street'' c z = household_id ''123 MAIN ST'' c z
   \<and> normalize_address ''123 Main Street'' = normalize_address ''123 MAIN ST''"
proof (intro conjI impI)
  assume "create_address_key street1 city1 zip1 = create_address_key street2 city2 zip2"
  then show "household_id street1 city1 zip1 = household_id street2 city2 zip2"
    by (simp add: household_id_def)
next
  have s: "strip (upper ''123 Main Street'') = ''123 MAIN STREET''"
    "strip (upper ''123 MAIN ST'') = ''123 MAIN ST''"
    by (simp_all add: str_defs)
  have h: "household_street ''123 MAIN STREET'' = ''123 MAIN ST''"
    "household_street ''123 MAIN ST'' = ''123 MAIN ST''"
    by (simp_all add: addr_defs str_defs)
  have "create_address_key ''123 Main Street'' c z = create_address_key ''123 MAIN ST'' c z"
    unfolding create_address_key_def s Let_def h by simp
  then show "household_id ''123 Main Street'' c z = household_id ''123 MAIN ST'' c z"
    by (simp add: household_id_def)
next
  show "normalize_address ''123 Main Street'' = normalize_address ''123 MAIN ST''"
    by (simp add: addr_defs str_defs)
qed

theorem household_id_same_key_witness:
  "create_address_key ''12  Elm Avenue '' ''Cary'' ''27511-1234''
     = create_address_key ''12 ELM AVE'' '' cary'' ''27511''
   \<and> household_id ''12  Elm Avenue '' ''Cary'' ''27511-1234''
     = household_id ''12 ELM AVE'' '' cary'' ''27511''"
proof -
  have k: "create_address_key ''12  Elm Avenue '' ''Cary'' ''27511-1234''
     = create_address_key ''12 ELM AVE'' '' cary'' ''27511''"
    by (simp add: addr_defs str_defs)
  with household_id_same_key
         [of "''12  Elm Avenue ''" "''Cary''" "''27511-1234''" "''12 ELM AVE''" "'' cary''" "''27511''"]
  show ?thesis by blast
qed

section \<open>The matching loop\<close>

lemma mstate_0: "mstate s1 s2 d 0 = (replicate (length s1) False, replicate (length s2) False, 0)"
  by (simp add: mstate_def)

lemma mstate_Suc: "mstate s1 s2 d (Suc k) = match_step s1 s2 d (mstate s1 s2 d k) k"
  by (simp add: mstate_def)

lemma match_loop_mstate: "match_loop s1 s2 d = mstate s1 s2 d (length s1)"
  by (simp add: match_loop_def mstate_def)

lemma find_append:
  "find P (xs @ ys) = (case find P xs of None \<Rightarrow> find P ys | Some x \<Rightarrow> Some x)"
  by (induction xs) auto

lemma find_upt_Some:
  "find P [lo..<hi] = Some j \<longleftrightarrow> (lo \<le> j \<and> j < hi \<and> P j \<and> (\<forall>j'. lo \<le> j' \<and> j' < j \<longrightarrow> \<not> P j'))"
proof (induction hi arbitrary: j)
  case 0
  then show ?case by simp
next
  case (Suc hi)
  show ?case
  proof (cases "lo \<le> hi")
    case False
    then show ?thesis by auto
  next
    case True
    then have u: "[lo..<Suc hi] = [lo..<hi] @ [hi]" by simp
    show ?thesis
    proof (cases "find P [lo..<hi]")
      case None
      then have n: "\<forall>x. lo \<le> x \<and> x < hi \<longrightarrow> \<not> P x"
        by (auto simp: find_None_iff)
      have "find P [lo..<Suc hi] = (if P hi then Some hi else None)"
        by (simp add: u find_append None del: upt_Suc)
      then show ?thesis
        using n True by (auto simp: less_Suc_eq)
    next
      case (Some x)
      then have x: "lo \<le> x" "x < hi" "P x" "\<forall>j'. lo \<le> j' \<and> j' < x \<longrightarrow> \<not> P j'"
        using Suc.IH [of x] by auto
      have f: "find P [lo..<Suc hi] = Some x"
        by (simp add: u find_append Some del: upt_Suc)
      show ?thesis
      proof
        assume "find P [lo..<Suc hi] = Some j"
        then have "j = x" using f by simp
        then show "lo \<le> j \<and> j < Suc hi \<and> P j \<and> (\<forall>j'. lo \<le> j' \<and> j' < j \<longrightarrow> \<not> P j')"
          using x by simp
      next
        assume r: "lo \<le> j \<and> j < Suc hi \<and> P j \<and> (\<forall>j'. lo \<le> j' \<and> j' < j \<longrightarrow> \<not> P j')"
        have "j = x"
        proof (rule ccontr)
          assume "j \<noteq> x"
          then consider "j < x" | "x < j" by linarith
          then show False
            using r x by cases auto
        qed
        then show "find P [lo..<Suc hi] = Some j" using f by simp
      qed
    qed
  qed
qed

lemma find_match_Some:
  "find_match s1 s2 d b i = Some j \<longleftrightarrow>
     (i - d \<le> j \<and> j \<le> i + d \<and> j < length s2 \<and> \<not> b ! j \<and> s1 ! i = s2 ! j
      \<and> (\<forall>j'. i - d \<le> j' \<and> j' < j \<longrightarrow> b ! j' \<or> s1 ! i \<noteq> s2 ! j'))"
  unfolding find_match_def find_upt_Some by auto

lemma find_match_None:
  "find_match s1 s2 d b i = None \<longleftrightarrow>
     (\<forall>j. i - d \<le> j \<and> j \<le> i + d \<and> j < length s2 \<longrightarrow> b ! j \<or> s1 ! i \<noteq> s2 ! j)"
  unfolding find_match_def by (auto simp: find_None_iff)

lemma count_true_update:
  "i < length xs \<Longrightarrow> \<not> xs ! i \<Longrightarrow> count_true (xs[i := True]) = Suc (count_true xs)"
proof (induction xs arbitrary: i)
  case Nil
  then show ?case by simp
next
  case (Cons x xs)
  then show ?case by (cases i) (auto simp: count_true_def)
qed

lemma mstate_inv:
  "k \<le> length s1 \<Longrightarrow>
     (case mstate s1 s2 d k of (a, b, m) \<Rightarrow>
        length a = length s1 \<and> length b = length s2
        \<and> (\<forall>i<length s1. a ! i \<longleftrightarrow> (i < k \<and> partner s1 s2 d i \<noteq> None))
        \<and> (\<forall>j<length s2. b ! j \<longleftrightarrow> (\<exists>i<k. partner s1 s2 d i = Some j))
        \<and> count_true a = m \<and> count_true b = m)"
proof (induction k)
  case 0
  then show ?case by (simp add: mstate_0 count_true_def)
next
  case (Suc k)
  obtain a b m where st: "mstate s1 s2 d k = (a, b, m)"
    by (cases "mstate s1 s2 d k") auto
  have k: "k < length s1" using Suc.prems by simp
  have ih: "length a = length s1" "length b = length s2"
    "\<forall>i<length s1. a ! i \<longleftrightarrow> (i < k \<and> partner s1 s2 d i \<noteq> None)"
    "\<forall>j<length s2. b ! j \<longleftrightarrow> (\<exists>i<k. partner s1 s2 d i = Some j)"
    "count_true a = m" "count_true b = m"
    using Suc.IH k by (simp_all add: st)
  have p: "partner s1 s2 d k = find_match s1 s2 d b k"
    by (simp add: partner_def st)
  show ?case
  proof (cases "find_match s1 s2 d b k")
    case None
    then have "mstate s1 s2 d (Suc k) = (a, b, m)"
      by (simp add: mstate_Suc st)
    moreover have "\<forall>i<length s1. a ! i \<longleftrightarrow> (i < Suc k \<and> partner s1 s2 d i \<noteq> None)"
      using ih(3) p None by (auto simp: less_Suc_eq)
    moreover have "\<forall>j<length s2. b ! j \<longleftrightarrow> (\<exists>i<Suc k. partner s1 s2 d i = Some j)"
      using ih(4) p None by (auto simp: less_Suc_eq)
    ultimately show ?thesis using ih by simp
  next
    case (Some j)
    then have j: "j < length s2" "\<not> b ! j"
      by (auto simp: find_match_Some)
    have nk: "\<not> a ! k" using ih(3) k by simp
    have "mstate s1 s2 d (Suc k) = (a[k := True], b[j := True], m + 1)"
      by (simp add: mstate_Suc st Some)
    moreover have "\<forall>i<length s1. (a[k := True]) ! i \<longleftrightarrow> (i < Suc k \<and> partner s1 s2 d i \<noteq> None)"
      using ih(1,3) p Some k by (auto simp: less_Suc_eq nth_list_update)
    moreover have "\<forall>j'<length s2. (b[j := True]) ! j' \<longleftrightarrow> (\<exists>i<Suc k. partner s1 s2 d i = Some j')"
      using ih(2,4) p Some j by (auto simp: less_Suc_eq nth_list_update)
    moreover have "count_true (a[k := True]) = m + 1" "count_true (b[j := True]) = m + 1"
      using count_true_update [of k a] count_true_update [of j b] ih k j nk by simp_all
    ultimately show ?thesis using ih by simp
  qed
qed

lemma partner_Some_iff:
  assumes "i \<le> length s1"
  shows "partner s1 s2 d i = Some j \<longleftrightarrow>
     (j < length s2 \<and> i - d \<le> j \<and> j \<le> i + d \<and> s1 ! i = s2 ! j
      \<and> (\<forall>i'<i. partner s1 s2 d i' \<noteq> Some j)
      \<and> (\<forall>j'<j. i - d \<le> j' \<and> s1 ! i = s2 ! j' \<longrightarrow> (\<exists>i'<i. partner s1 s2 d i' = Some j')))"
proof -
  obtain a b m where st: "mstate s1 s2 d i = (a, b, m)"
    by (cases "mstate s1 s2 d i") auto
  have b: "\<forall>j<length s2. b ! j \<longleftrightarrow> (\<exists>i'<i. partner s1 s2 d i' = Some j)"
    using mstate_inv [OF assms, of s2 d] by (simp add: st)
  have p: "partner s1 s2 d i = find_match s1 s2 d b i"
    by (simp add: partner_def st)
  have bj: "b ! j' \<longleftrightarrow> (\<exists>i'<i. partner s1 s2 d i' = Some j')" if "j' < length s2" for j'
    using b that by blast
  show ?thesis
  proof
    assume "partner s1 s2 d i = Some j"
    then have h: "i - d \<le> j" "j \<le> i + d" "j < length s2" "\<not> b ! j" "s1 ! i = s2 ! j"
      "\<forall>j'. i - d \<le> j' \<and> j' < j \<longrightarrow> b ! j' \<or> s1 ! i \<noteq> s2 ! j'"
      unfolding p find_match_Some by auto
    have "\<forall>i'<i. partner s1 s2 d i' \<noteq> Some j"
      using h(3,4) bj by blast
    moreover have "\<forall>j'<j. i - d \<le> j' \<and> s1 ! i = s2 ! j' \<longrightarrow> (\<exists>i'<i. partner s1 s2 d i' = Some j')"
    proof (intro allI impI)
      fix j' assume "j' < j" and w: "i - d \<le> j' \<and> s1 ! i = s2 ! j'"
      then have "b ! j'" using h(6) by blast
      moreover have "j' < length s2" using \<open>j' < j\<close> h(3) by simp
      ultimately show "\<exists>i'<i. partner s1 s2 d i' = Some j'" using bj by blast
    qed
    ultimately show "j < length s2 \<and> i - d \<le> j \<and> j \<le> i + d \<and> s1 ! i = s2 ! j
      \<and> (\<forall>i'<i. partner s1 s2 d i' \<noteq> Some j)
      \<and> (\<forall>j'<j. i - d \<le> j' \<and> s1 ! i = s2 ! j' \<longrightarrow> (\<exists>i'<i. partner s1 s2 d i' = Some j'))"
      using h by blast
  next
    assume r: "j < length s2 \<and> i - d \<le> j \<and> j \<le> i + d \<and> s1 ! i = s2 ! j
      \<and> (\<forall>i'<i. partner s1 s2 d i' \<noteq> Some j)
      \<and> (\<forall>j'<j. i - d \<le> j' \<and> s1 ! i = s2 ! j' \<longrightarrow> (\<exists>i'<i. partner s1 s2 d i' = Some j'))"
    then have nb: "\<not> b ! j" using bj by blast
    have "b ! j' \<or> s1 ! i \<noteq> s2 ! j'" if "i - d \<le> j' \<and> j' < j" for j'
    proof -
      have "j' < length s2" using that r by simp
      then show ?thesis using r that bj by blast
    qed
    then show "partner s1 s2 d i = Some j"
      unfolding p find_match_Some using r nb by blast
  qed
qed

lemma partner_None_iff:
  assumes "i \<le> length s1"
  shows "partner s1 s2 d i = None \<longleftrightarrow>
     (\<forall>j<length s2. i - d \<le> j \<and> j \<le> i + d \<and> s1 ! i = s2 ! j
        \<longrightarrow> (\<exists>i'<i. partner s1 s2 d i' = Some j))"
proof -
  obtain a b m where st: "mstate s1 s2 d i = (a, b, m)"
    by (cases "mstate s1 s2 d i") auto
  have b: "\<forall>j<length s2. b ! j \<longleftrightarrow> (\<exists>i'<i. partner s1 s2 d i' = Some j)"
    using mstate_inv [OF assms, of s2 d] by (simp add: st)
  have p: "partner s1 s2 d i = find_match s1 s2 d b i"
    by (simp add: partner_def st)
  show ?thesis
    unfolding p find_match_None using b by auto
qed

lemma partner_inj:
  assumes "partner s1 s2 d i = Some j" "partner s1 s2 d i' = Some j"
    and "i \<le> length s1" "i' \<le> length s1"
  shows "i = i'"
proof (rule ccontr)
  assume "i \<noteq> i'"
  then consider "i < i'" | "i' < i" by linarith
  then show False
  proof cases
    case 1
    then show False
      using assms(1,2) partner_Some_iff [OF assms(4), of s2 d j] by auto
  next
    case 2
    then show False
      using assms(1,2) partner_Some_iff [OF assms(3), of s2 d j] by auto
  qed
qed

text \<open>
  The matching is the same from both sides: position \<open>j\<close> of \<open>s2\<close> picks position \<open>i\<close> of
  \<open>s1\<close> in the run on \<open>(s2, s1)\<close> exactly when \<open>i\<close> picks \<open>j\<close> in the run on \<open>(s1, s2)\<close>.
\<close>

lemma partner_forward:
  assumes ih: "\<And>j' i'. j' < j \<Longrightarrow> i' < length s1 \<Longrightarrow>
                 partner s2 s1 d j' = Some i' \<longleftrightarrow> partner s1 s2 d i' = Some j'"
    and i: "i < length s1" and f: "partner s1 s2 d i = Some j"
  shows "partner s2 s1 d j = Some i"
proof -
  have il: "i \<le> length s1" using i by simp
  from f have fj: "j < length s2" "i - d \<le> j" "j \<le> i + d" "s1 ! i = s2 ! j"
    using partner_Some_iff [OF il, of s2 d j] by auto
  have jl: "j \<le> length s2" using fj(1) by simp
  have c4: "\<forall>j'<j. partner s2 s1 d j' \<noteq> Some i"
  proof (intro allI impI)
    fix j' assume "j' < j"
    then have "partner s2 s1 d j' = Some i \<longleftrightarrow> partner s1 s2 d i = Some j'"
      using ih i by blast
    then show "partner s2 s1 d j' \<noteq> Some i"
      using f \<open>j' < j\<close> by auto
  qed
  have c5: "\<forall>i'<i. j - d \<le> i' \<and> s2 ! j = s1 ! i' \<longrightarrow> (\<exists>j'<j. partner s2 s1 d j' = Some i')"
  proof (intro allI impI)
    fix i' assume i': "i' < i" and w: "j - d \<le> i' \<and> s2 ! j = s1 ! i'"
    have i'l: "i' \<le> length s1" "i' < length s1" using i' i by auto
    have win: "i' - d \<le> j" "j \<le> i' + d" using w i' fj(2) by auto
    have noj: "\<not> (\<exists>i''<i'. partner s1 s2 d i'' = Some j)"
    proof
      assume "\<exists>i''<i'. partner s1 s2 d i'' = Some j"
      then obtain i'' where "i'' < i'" "partner s1 s2 d i'' = Some j" by blast
      then have "i'' = i"
        using partner_inj [OF _ f, of i''] i' i by auto
      then show False using \<open>i'' < i'\<close> i' by simp
    qed
    have "partner s1 s2 d i' \<noteq> None"
      using partner_None_iff [OF i'l(1), of s2 d] fj(1) win w noj by auto
    then obtain j'' where j'': "partner s1 s2 d i' = Some j''" by auto
    have "j'' < j"
    proof (rule ccontr)
      assume "\<not> j'' < j"
      then consider "j'' = j" | "j < j''" by linarith
      then show False
      proof cases
        case 1
        then have "i' = i" using partner_inj [OF _ f, of i'] j'' i'l il by auto
        then show False using i' by simp
      next
        case 2
        then have "\<exists>i''<i'. partner s1 s2 d i'' = Some j"
          using partner_Some_iff [OF i'l(1), of s2 d j''] j'' win w by auto
        then show False using noj by simp
      qed
    qed
    moreover have "partner s2 s1 d j'' = Some i'"
      using ih [OF \<open>j'' < j\<close> i'l(2)] j'' by simp
    ultimately show "\<exists>j'<j. partner s2 s1 d j' = Some i'" by blast
  qed
  show ?thesis
    using partner_Some_iff [OF jl, of s1 d i] i fj c4 c5 by auto
qed

lemma partner_sym:
  "j < length s2 \<Longrightarrow> i < length s1 \<Longrightarrow>
     partner s2 s1 d j = Some i \<longleftrightarrow> partner s1 s2 d i = Some j"
proof (induction j arbitrary: i rule: less_induct)
  case (less j)
  have ih: "\<And>j' i'. j' < j \<Longrightarrow> i' < length s1 \<Longrightarrow>
                 partner s2 s1 d j' = Some i' \<longleftrightarrow> partner s1 s2 d i' = Some j'"
    using less.IH less.prems(1) by (meson less_trans)
  have il: "i \<le> length s1" and jl: "j \<le> length s2" using less.prems by auto
  show ?case
  proof
    assume f: "partner s1 s2 d i = Some j"
    show "partner s2 s1 d j = Some i"
      by (rule partner_forward [OF ih less.prems(2) f])
  next
    assume g: "partner s2 s1 d j = Some i"
    then have gi: "j - d \<le> i" "i \<le> j + d" "s2 ! j = s1 ! i"
      "\<forall>j'<j. partner s2 s1 d j' \<noteq> Some i"
      using partner_Some_iff [OF jl, of s1 d i] by auto
    have nf: "\<forall>j'<j. partner s1 s2 d i \<noteq> Some j'"
      using gi(4) ih less.prems(2) by blast
    have ex: "\<exists>i0<length s1. partner s1 s2 d i0 = Some j"
    proof (rule ccontr)
      assume no: "\<not> (\<exists>i0<length s1. partner s1 s2 d i0 = Some j)"
      then have noi: "\<not> (\<exists>i'<i. partner s1 s2 d i' = Some j)"
        using less.prems(2) by (meson less_trans)
      have win: "i - d \<le> j" "j \<le> i + d" using gi by auto
      have "partner s1 s2 d i \<noteq> None"
        using partner_None_iff [OF il, of s2 d] less.prems(1) win gi(3) noi by auto
      then obtain j'' where j'': "partner s1 s2 d i = Some j''" by auto
      consider "j'' < j" | "j'' = j" | "j < j''" by linarith
      then show False
      proof cases
        case 1
        then show False using nf j'' by blast
      next
        case 2
        then show False using no j'' less.prems(2) by blast
      next
        case 3
        then have "\<exists>i'<i. partner s1 s2 d i' = Some j"
          using partner_Some_iff [OF il, of s2 d j''] j'' win gi(3) by auto
        then show False using noi by simp
      qed
    qed
    then obtain i0 where i0: "i0 < length s1" "partner s1 s2 d i0 = Some j" by blast
    have "partner s2 s1 d j = Some i0"
      by (rule partner_forward [OF ih i0])
    then have "i0 = i" using g by simp
    then show "partner s1 s2 d i = Some j" using i0 by simp
  qed
qed

lemma match_loop_sym:
  assumes "match_loop s1 s2 d = (a, b, m)"
  shows "match_loop s2 s1 d = (b, a, m)"
proof -
  obtain b' a' m' where st': "mstate s2 s1 d (length s2) = (b', a', m')"
    by (cases "mstate s2 s1 d (length s2)") auto
  have st: "mstate s1 s2 d (length s1) = (a, b, m)"
    using assms by (simp add: match_loop_mstate)
  have inv: "length a = length s1" "length b = length s2"
    "\<forall>i<length s1. a ! i \<longleftrightarrow> partner s1 s2 d i \<noteq> None"
    "\<forall>j<length s2. b ! j \<longleftrightarrow> (\<exists>i<length s1. partner s1 s2 d i = Some j)"
    "count_true a = m"
    using mstate_inv [of "length s1" s1 s2 d] by (simp_all add: st)
  have inv': "length b' = length s2" "length a' = length s1"
    "\<forall>j<length s2. b' ! j \<longleftrightarrow> partner s2 s1 d j \<noteq> None"
    "\<forall>i<length s1. a' ! i \<longleftrightarrow> (\<exists>j<length s2. partner s2 s1 d j = Some i)"
    "count_true a' = m'"
    using mstate_inv [of "length s2" s2 s1 d] by (simp_all add: st')
  have "a' ! i = a ! i" if i: "i < length s1" for i
  proof -
    have "a' ! i \<longleftrightarrow> (\<exists>j<length s2. partner s1 s2 d i = Some j)"
      using inv'(4) i partner_sym [of _ s2 i s1 d] by auto
    also have "\<dots> \<longleftrightarrow> partner s1 s2 d i \<noteq> None"
      using partner_Some_iff [of i s1 s2 d] i by auto
    finally show ?thesis using inv(3) i by simp
  qed
  then have a: "a' = a"
    using inv(1) inv'(2) by (auto intro: nth_equalityI)
  have "b' ! j = b ! j" if j: "j < length s2" for j
  proof -
    have "b' ! j \<longleftrightarrow> (\<exists>i<length s1. partner s2 s1 d j = Some i)"
      using inv'(3) j partner_Some_iff [of j s2 s1 d] by auto
    also have "\<dots> \<longleftrightarrow> (\<exists>i<length s1. partner s1 s2 d i = Some j)"
      using partner_sym [of j s2 _ s1 d] j by auto
    finally show ?thesis using inv(4) j by simp
  qed
  then have b: "b' = b"
    using inv(2) inv'(1) by (auto intro: nth_equalityI)
  have "m' = m" using inv(5) inv'(5) a by simp
  then show ?thesis
    using st' a b by (simp add: match_loop_mstate)
qed

lemma match_loop_counts:
  assumes "match_loop s1 s2 d = (a, b, m)"
  shows "length a = length s1 \<and> length b = length s2 \<and> count_true a = m \<and> count_true b = m"
  using mstate_inv [of "length s1" s1 s2 d] assms by (simp add: match_loop_mstate)

section \<open>The transposition loop\<close>

lemma length_matched: "length (matched a) = count_true a"
proof -
  have "count_true a = length (filter (\<lambda>b. b) (map ((!) a) [0..<length a]))"
    by (simp add: count_true_def map_nth)
  also have "\<dots> = length (filter (\<lambda>i. a ! i) [0..<length a])"
    by (simp add: filter_map comp_def)
  finally show ?thesis by (simp add: matched_def)
qed

lemma filter_upt_Cons:
  "filter P [k..<n] = y # ys \<Longrightarrow> find P [k..<n] = Some y \<and> filter P [Suc y..<n] = ys"
proof (induction "n - k" arbitrary: k)
  case 0
  then show ?case by simp
next
  case (Suc m)
  then have kn: "k < n" by simp
  then have u: "[k..<n] = k # [Suc k..<n]" by (simp add: upt_conv_Cons)
  show ?case
  proof (cases "P k")
    case True
    then have "y = k" "filter P [Suc k..<n] = ys" using Suc.prems u by auto
    then show ?thesis using True u by simp
  next
    case False
    then have "filter P [Suc k..<n] = y # ys" using Suc.prems u by simp
    moreover have "m = n - Suc k" using Suc.hyps(2) by simp
    ultimately have "find P [Suc k..<n] = Some y \<and> filter P [Suc y..<n] = ys"
      using Suc.hyps(1) by blast
    then show ?thesis using False u by simp
  qed
qed

lemma matched_split:
  assumes "i < length a" "a ! i"
  shows "matched a = filter (\<lambda>x. a ! x) [0..<i] @ i # filter (\<lambda>x. a ! x) [Suc i..<length a]"
proof -
  have "[0..<length a] = [0..<i] @ [i..<length a]"
    using upt_add_eq_append [of 0 i "length a - i"] assms(1) by simp
  then have "[0..<length a] = [0..<i] @ i # [Suc i..<length a]"
    using assms(1) by (simp add: upt_conv_Cons)
  then show ?thesis using assms(2) by (simp add: matched_def)
qed

lemma transp_upto_Suc:
  "transp_upto s1 s2 a b (Suc p) =
     (if s1 ! (matched a ! p) \<noteq> s2 ! (matched b ! p) then transp_upto s1 s2 a b p + 1
      else transp_upto s1 s2 a b p)"
  by (simp add: transp_upto_def)

lemma matched_before_Suc:
  "matched_before a (Suc i) = (if a ! i then Suc (matched_before a i) else matched_before a i)"
  by (simp add: matched_before_def)

lemma matched_before_nth:
  assumes "i < length a" "a ! i"
  shows "matched a ! matched_before a i = i" "matched_before a i < length (matched a)"
  using matched_split [OF assms] by (simp_all add: matched_before_def nth_append)

lemma foldl_upt_Suc: "foldl f s [0..<Suc i] = f (foldl f s [0..<i]) i"
  by simp

lemma transp_inv:
  assumes c: "count_true a = count_true b" and i: "i \<le> length a"
  shows "\<exists>k. foldl (transp_step s1 s2 a b) (Some (0, 0)) [0..<i] =
           Some (k, transp_upto s1 s2 a b (matched_before a i))
         \<and> filter (\<lambda>x. b ! x) [k..<length b] = drop (matched_before a i) (matched b)"
  using i
proof (induction i)
  case 0
  have "foldl (transp_step s1 s2 a b) (Some (0, 0)) [0..<0] = Some (0, transp_upto s1 s2 a b (matched_before a 0))
     \<and> filter (\<lambda>x. b ! x) [0..<length b] = drop (matched_before a 0) (matched b)"
    by (simp add: matched_def matched_before_def transp_upto_def)
  then show ?case by (rule exI)
next
  case (Suc i)
  define p where "p = matched_before a i"
  define t where "t = transp_upto s1 s2 a b p"
  obtain k where k: "foldl (transp_step s1 s2 a b) (Some (0, 0)) [0..<i] = Some (k, t)"
    "filter (\<lambda>x. b ! x) [k..<length b] = drop p (matched b)"
    using Suc unfolding p_def t_def by auto
  have il: "i < length a" using Suc.prems by simp
  show ?case
  proof (cases "a ! i")
    case False
    have "foldl (transp_step s1 s2 a b) (Some (0, 0)) [0..<Suc i] = Some (k, t)"
      unfolding foldl_upt_Suc k(1) using False by simp
    moreover have "matched_before a (Suc i) = p"
      using False by (simp add: matched_before_Suc p_def)
    ultimately have "foldl (transp_step s1 s2 a b) (Some (0, 0)) [0..<Suc i] =
           Some (k, transp_upto s1 s2 a b (matched_before a (Suc i)))
         \<and> filter (\<lambda>x. b ! x) [k..<length b] = drop (matched_before a (Suc i)) (matched b)"
      using k(2) t_def by simp
    then show ?thesis by (rule exI)
  next
    case True
    have ai: "matched a ! p = i" and "p < length (matched a)"
      using matched_before_nth [OF il True] by (simp_all add: p_def)
    then have pl: "p < length (matched b)"
      using c by (simp add: length_matched)
    define y where "y = matched b ! p"
    have "filter (\<lambda>x. b ! x) [k..<length b] = y # drop (Suc p) (matched b)"
      using k(2) pl by (simp add: Cons_nth_drop_Suc y_def)
    then have f: "find (\<lambda>x. b ! x) [k..<length b] = Some y"
      "filter (\<lambda>x. b ! x) [Suc y..<length b] = drop (Suc p) (matched b)"
      using filter_upt_Cons by blast+
    have st: "transp_step s1 s2 a b (Some (k, t)) i
                = Some (Suc y, if s1 ! i \<noteq> s2 ! y then t + 1 else t)"
      using True f(1) by simp
    have t': "transp_upto s1 s2 a b (Suc p) = (if s1 ! i \<noteq> s2 ! y then t + 1 else t)"
      unfolding transp_upto_Suc ai y_def t_def by simp
    have p': "matched_before a (Suc i) = Suc p"
      using True by (simp add: matched_before_Suc p_def)
    have "foldl (transp_step s1 s2 a b) (Some (0, 0)) [0..<Suc i] =
           Some (Suc y, transp_upto s1 s2 a b (matched_before a (Suc i)))
         \<and> filter (\<lambda>x. b ! x) [Suc y..<length b] = drop (matched_before a (Suc i)) (matched b)"
      unfolding foldl_upt_Suc k(1) st p' t' using f(2) by simp
    then show ?thesis by (rule exI)
  qed
qed

lemma transp_loop_eq:
  assumes "length a = length s1" "count_true a = count_true b"
  shows "transp_loop s1 s2 a b = Some (transp_count s1 s2 a b)"
proof -
  have "matched_before a (length a) = count_true a"
    using length_matched [of a] by (simp add: matched_def matched_before_def)
  then show ?thesis
    using transp_inv [OF assms(2), of "length a" s1 s2] assms(1)
    by (auto simp: transp_loop_def transp_count_def)
qed

lemma transp_count_sym:
  assumes "count_true a = count_true b"
  shows "transp_count s2 s1 b a = transp_count s1 s2 a b"
proof -
  have "(\<lambda>q. s2 ! (matched b ! q) \<noteq> s1 ! (matched a ! q))
          = (\<lambda>q. s1 ! (matched a ! q) \<noteq> s2 ! (matched b ! q))"
    by auto
  then show ?thesis
    using assms by (simp add: transp_count_def transp_upto_def)
qed

section \<open>The similarity scorer is total and symmetric\<close>

lemma prefix_len_sym: "prefix_len s2 s1 = prefix_len s1 s2"
proof -
  have "(\<lambda>i. s2 ! i = s1 ! i) = (\<lambda>i. s1 ! i = s2 ! i)" by auto
  then show ?thesis by (simp add: prefix_len_def min.commute)
qed

lemma jaro_value_sym: "jaro_value len2 len1 m t = jaro_value len1 len2 m t"
  by (simp add: jaro_value_def add.commute)

lemma jaro_winkler_eq:
  assumes "match_loop s1 s2 (max (length s1) (length s2) div 2 - 1) = (a, b, m)"
  shows "jaro_winkler s1 s2 =
           (if m = 0 then Some 0
            else Some (jaro_value (length s1) (length s2) m (transp_count s1 s2 a b)
                       + of_nat (prefix_len s1 s2) * (1 / 10)
                         * (1 - jaro_value (length s1) (length s2) m (transp_count s1 s2 a b))))"
proof -
  have "length a = length s1" "count_true a = count_true b"
    using match_loop_counts [OF assms] by auto
  then have "transp_loop s1 s2 a b = Some (transp_count s1 s2 a b)"
    by (rule transp_loop_eq)
  then show ?thesis
    unfolding jaro_winkler_def Let_def assms by simp
qed

lemma jaro_winkler_total: "\<exists>r. jaro_winkler s1 s2 = Some r"
proof -
  obtain a b m where "match_loop s1 s2 (max (length s1) (length s2) div 2 - 1) = (a, b, m)"
    by (cases "match_loop s1 s2 (max (length s1) (length s2) div 2 - 1)") auto
  then show ?thesis by (simp add: jaro_winkler_eq)
qed

lemma jaro_winkler_sym: "jaro_winkler s2 s1 = jaro_winkler s1 s2"
proof -
  let ?d = "max (length s1) (length s2) div 2 - 1"
  obtain a b m where st: "match_loop s1 s2 ?d = (a, b, m)"
    by (cases "match_loop s1 s2 ?d") auto
  have st': "match_loop s2 s1 (max (length s2) (length s1) div 2 - 1) = (b, a, m)"
    using match_loop_sym [OF st] by (simp add: max.commute)
  have c: "count_true a = count_true b"
    using match_loop_counts [OF st] by simp
  show ?thesis
    unfolding jaro_winkler_eq [OF st] jaro_winkler_eq [OF st']
    by (simp add: transp_count_sym [OF c] prefix_len_sym jaro_value_sym)
qed

lemma calculate_name_similarity_total: "\<exists>r. calculate_name_similarity name1 name2 = Some r"
  using jaro_winkler_total by (simp add: calculate_name_similarity_def Let_def)

section \<open>Claims about symmetry and the match decision\<close>

text \<open>
  Claim C8.  For all strings \<open>a\<close> and \<open>b\<close> the similarity of \<open>a\<close> and \<open>b\<close> is the similarity of
  \<open>b\<close> and \<open>a\<close>: the greedy matching pairs the same positions from either side, so the
  flags, the number of matches and the number of transpositions agree.
\<close>

theorem calculate_name_similarity_symmetric:
  "calculate_name_similarity a b = calculate_name_similarity b a"
proof -
  have "jaro_winkler (strip (upper a)) (strip (upper b))
          = jaro_winkler (strip (upper b)) (strip (upper a))"
    by (rule jaro_winkler_sym)
  then show ?thesis
    by (auto simp: calculate_name_similarity_def Let_def)
qed


section \<open>The clustering loops keep the records\<close>

lemma match_records_total: "\<exists>x. match_records r s = Some x"
proof -
  obtain f where "calculate_name_similarity (first_name r) (first_name s) = Some f"
    using calculate_name_similarity_total by blast
  then show ?thesis by (auto simp: match_records_def Let_def)
qed


lemma clear_id_update [simp]: "clear_id (r\<lparr>master_person_id := x\<rparr>) = clear_id r"
  by (simp add: clear_id_def)

lemma map_clear_update:
  "map clear_id (st[j := (st ! j)\<lparr>master_person_id := x\<rparr>]) = map clear_id st"
proof (cases "j < length st")
  case True
  then show ?thesis by (simp add: map_update list_update_same_conv)
next
  case False
  then show ?thesis by (simp add: list_update_beyond)
qed

lemma propagate_frame:
  "\<exists>st' A'. propagate r (Some (st, A)) j = Some (st', A') \<and> map clear_id st' = map clear_id st"
proof -
  obtain m sc where "match_records r (st ! j) = Some (m, sc)"
    using match_records_total [of r "st ! j"] by auto
  then show ?thesis
    by (simp add: Let_def map_clear_update)
qed

lemma foldl_propagate_frame:
  "\<exists>st' A'. foldl (propagate r) (Some (st, A)) js = Some (st', A')
     \<and> map clear_id st' = map clear_id st"
proof (induction js arbitrary: st A)
  case Nil
  then show ?case by simp
next
  case (Cons j js)
  obtain st1 A1 where s: "propagate r (Some (st, A)) j = Some (st1, A1)"
    "map clear_id st1 = map clear_id st"
    using propagate_frame by blast
  obtain st2 A2 where "foldl (propagate r) (Some (st1, A1)) js = Some (st2, A2)"
    "map clear_id st2 = map clear_id st1"
    using Cons.IH by blast
  then show ?case using s by simp
qed

lemma block_loop_frame:
  "\<exists>st' A'. block_loop (Some (st, A)) block = Some (st', A')
     \<and> map clear_id st' = map clear_id st"
proof (induction block arbitrary: st A)
  case Nil
  then show ?case by simp
next
  case (Cons i rest)
  show ?case
  proof (cases "id' (st ! i) \<in> A")
    case True
    then show ?thesis using Cons.IH [of st A] by simp
  next
    case False
    let ?r = "(st ! i)\<lparr>master_person_id := Some (generate_master_id (components (st ! i)))\<rparr>"
    obtain st1 A1 where s: "foldl (propagate ?r) (Some (st[i := ?r], insert (id' ?r) A)) rest
        = Some (st1, A1)" "map clear_id st1 = map clear_id (st[i := ?r])"
      using foldl_propagate_frame by blast
    obtain st2 A2 where t: "block_loop (Some (st1, A1)) rest = Some (st2, A2)"
      "map clear_id st2 = map clear_id st1"
      using Cons.IH by blast
    have "block_loop (Some (st, A)) (i # rest) = Some (st2, A2)"
      using False s(1) t(1) by (simp add: Let_def)
    moreover have "map clear_id st2 = map clear_id st"
      using s(2) t(2) map_clear_update [of st i] by simp
    ultimately show ?thesis by blast
  qed
qed

lemma blocks_frame:
  "\<exists>st'. foldl (\<lambda>store (key, block).
                  case store of None \<Rightarrow> None
                  | Some s \<Rightarrow> map_option fst (block_loop (Some (s, {})) block))
             (Some st) bs = Some st'
         \<and> map clear_id st' = map clear_id st"
proof (induction bs arbitrary: st)
  case Nil
  then show ?case by simp
next
  case (Cons b bs)
  obtain key block where b: "b = (key, block)" by (cases b)
  obtain st1 A1 where s: "block_loop (Some (st, {})) block = Some (st1, A1)"
    "map clear_id st1 = map clear_id st"
    using block_loop_frame by blast
  obtain st2 where "foldl (\<lambda>store (key, block).
                  case store of None \<Rightarrow> None
                  | Some s \<Rightarrow> map_option fst (block_loop (Some (s, {})) block))
             (Some st1) bs = Some st2" "map clear_id st2 = map clear_id st1"
    using Cons.IH by blast
  then show ?case using s b by simp
qed

text \<open>
  Claim C9.  \<open>assign_master_ids\<close> returns, and the list it returns is the list of the input
  records in the same order with at most the master ids changed: after the master id is
  blanked on both sides the two lists are equal.
\<close>

theorem assign_master_ids_frame:
  "\<exists>out. assign_master_ids records = Some out
     \<and> map (\<lambda>r. r\<lparr>master_person_id := None\<rparr>) out
         = map (\<lambda>r. r\<lparr>master_person_id := None\<rparr>) records"
proof -
  have "clear_id = (\<lambda>r. r\<lparr>master_person_id := None\<rparr>)"
    by (rule ext) (simp add: clear_id_def)
  then show ?thesis
    using blocks_frame [of records "build_blocks records"]
    by (simp add: assign_master_ids_def)
qed

section \<open>Blocks\<close>







section \<open>Ids that do not depend on the seed\<close>










section \<open>Claims about the order of the input\<close>








end
